theory Spec2Isabelle
  imports Main "HOL-Library.Sublist"
begin

section \<open>Strings\<close>

text \<open>
  A JavaScript string is a sequence of UTF-16 code units; a code unit is modelled by its
  number. ASCII literals of the source are written with \<open>lit\<close>.
\<close>

type_synonym jsstring = "nat list"

definition lit :: "string \<Rightarrow> jsstring" where
  "lit s = map of_char s"

text \<open>Truthiness of an optional string: \<open>undefined\<close> and the empty string are falsy.\<close>

definition truthy :: "jsstring option \<Rightarrow> bool" where
  "truthy v = (case v of None \<Rightarrow> False | Some s \<Rightarrow> s \<noteq> [])"

section \<open>The job queue (services/queue.ts)\<close>

record BuildJobProgress =
  message :: jsstring
  percent :: int

record BuildJobResult =
  success :: bool
  apkPath :: "jsstring option"
  error :: "jsstring option"
  duration :: "int option"

datatype BuildType = Html | Zip

text \<open>
  \<open>createdAt\<close> is kept as the time in milliseconds that \<open>new Date(createdAt).getTime()\<close>
  reads from the stored ISO string: \<open>None\<close> when the field is missing, empty or not a date.
\<close>

record BuildJobData =
  taskId :: jsstring
  buildType :: BuildType
  filePath :: jsstring
  appName :: jsstring
  appId :: "jsstring option"
  iconPath :: "jsstring option"
  outputDir :: jsstring
  createdAt :: "int option"

text \<open>The states a queued job reports; \<open>OtherState\<close> is any state the code does not name.\<close>

datatype job_state = Completed | Failed | Active | Waiting | Delayed | Prioritized
  | OtherState jsstring

record job =
  job_id :: jsstring
  job_state :: job_state
  job_data :: BuildJobData
  job_progress :: "BuildJobProgress option"
  returnvalue :: "BuildJobResult option"
  failedReason :: "jsstring option"

text \<open>The queue holds its jobs in queue order; a job is found by its id.\<close>

type_synonym queue = "job list"

definition getJob :: "queue \<Rightarrow> jsstring \<Rightarrow> job option" where
  "getJob q tid = find (\<lambda>j. job_id j = tid) q"

definition getQueueStats :: "queue \<Rightarrow> nat \<times> nat" where
  "getQueueStats q =
     (length (filter (\<lambda>j. job_state j = Waiting) q),
      length (filter (\<lambda>j. job_state j = Active) q))"

fun findIndex :: "('a \<Rightarrow> bool) \<Rightarrow> 'a list \<Rightarrow> nat option" where
  "findIndex P [] = None"
| "findIndex P (x # xs) =
     (if P x then Some 0 else (case findIndex P xs of None \<Rightarrow> None | Some i \<Rightarrow> Some (Suc i)))"

text \<open>\<open>getWaiting(0, 100)\<close> is the first 101 waiting jobs; the position is 1-based, 0 when absent.\<close>

definition getJobPosition :: "queue \<Rightarrow> jsstring \<Rightarrow> nat" where
  "getJobPosition q tid =
     (let waitingJobs = take 101 (filter (\<lambda>j. job_state j = Waiting) q)
      in case findIndex (\<lambda>j. job_id j = tid) waitingJobs of
           None \<Rightarrow> 0
         | Some position \<Rightarrow> position + 1)"

datatype api_status = pending | active | completed | failed | not_found

record JobStatus =
  js_status :: api_status
  js_progress :: "BuildJobProgress option"
  js_result :: "BuildJobResult option"
  js_error :: "jsstring option"
  js_createdAt :: "int option"
  js_appName :: "jsstring option"
  js_queuePosition :: "nat option"
  js_queueTotal :: "nat option"

definition noStatus :: "api_status \<Rightarrow> JobStatus" where
  "noStatus s = \<lparr> js_status = s, js_progress = None, js_result = None, js_error = None,
     js_createdAt = None, js_appName = None, js_queuePosition = None, js_queueTotal = None \<rparr>"

definition pendingStatus :: "queue \<Rightarrow> job \<Rightarrow> nat \<Rightarrow> JobStatus" where
  "pendingStatus q j position =
     (let stats = getQueueStats q
      in (noStatus pending)\<lparr> js_createdAt := createdAt (job_data j),
           js_appName := Some (appName (job_data j)),
           js_queuePosition := Some position,
           js_queueTotal := Some (fst stats + snd stats) \<rparr>)"

definition getJobStatus :: "queue \<Rightarrow> jsstring \<Rightarrow> JobStatus" where
  "getJobStatus q tid =
     (case getJob q tid of
        None \<Rightarrow> noStatus not_found
      | Some j \<Rightarrow>
          (case job_state j of
             Completed \<Rightarrow> (noStatus completed)\<lparr> js_progress := job_progress j,
                 js_result := returnvalue j, js_createdAt := createdAt (job_data j),
                 js_appName := Some (appName (job_data j)) \<rparr>
           | Failed \<Rightarrow> (noStatus failed)\<lparr> js_progress := job_progress j,
                 js_error := failedReason j, js_createdAt := createdAt (job_data j),
                 js_appName := Some (appName (job_data j)) \<rparr>
           | Active \<Rightarrow> (noStatus active)\<lparr> js_progress := job_progress j,
                 js_createdAt := createdAt (job_data j),
                 js_appName := Some (appName (job_data j)) \<rparr>
           | Waiting \<Rightarrow> pendingStatus q j
                 (let position = getJobPosition q tid in if position = 0 then 1 else position)
           | Delayed \<Rightarrow> pendingStatus q j
                 (let position = getJobPosition q tid in if position = 0 then 1 else position)
           | Prioritized \<Rightarrow> pendingStatus q j
                 (let position = getJobPosition q tid in if position = 0 then 1 else position)
           | OtherState s \<Rightarrow> pendingStatus q j 1))"


text \<open>
  The worker's progress callback writes \<open>{message, percent: percent ?? 0}\<close> to the job
  (worker.ts, \<open>onProgress\<close>): a message sent without a percent stores 0.
\<close>

definition updateProgress :: "queue \<Rightarrow> jsstring \<Rightarrow> jsstring \<Rightarrow> int option \<Rightarrow> queue" where
  "updateProgress q tid msg pct =
     map (\<lambda>j. if job_id j = tid
                then j\<lparr> job_progress :=
                       Some \<lparr> message = msg, percent = (case pct of None \<Rightarrow> 0 | Some p \<Rightarrow> p) \<rparr> \<rparr>
                else j) q"

section \<open>Storage (services/storage.ts)\<close>

text \<open>
  The file system is the list of the paths that exist, each a file or a directory with the
  size \<open>stat\<close> reports. An entry is kept under its path without separators at the end, so the
  root directory has the empty key. A path that ends with a separator names a directory only.
\<close>

datatype node = File nat | Dir nat

type_synonym filesystem = "(jsstring \<times> node) list"

definition noTrail :: "jsstring \<Rightarrow> jsstring" where
  "noTrail p = rev (dropWhile (\<lambda>c. c = 47) (rev p))"

definition statPath :: "filesystem \<Rightarrow> jsstring \<Rightarrow> node option" where
  "statPath fs p =
     (if p = [] then None
      else (case map_of fs (noTrail p) of
              None \<Rightarrow> None
            | Some (File n) \<Rightarrow> if last p = 47 then None else Some (File n)
            | Some (Dir n) \<Rightarrow> Some (Dir n)))"

definition pathExists :: "filesystem \<Rightarrow> jsstring \<Rightarrow> bool" where
  "pathExists fs p = (statPath fs p \<noteq> None)"

text \<open>\<open>getApkSize\<close> rejects (\<open>None\<close>) when the path is missing.\<close>

definition getApkSize :: "filesystem \<Rightarrow> jsstring \<Rightarrow> nat option" where
  "getApkSize fs p =
     (case statPath fs p of None \<Rightarrow> None | Some (File n) \<Rightarrow> Some n | Some (Dir n) \<Rightarrow> Some n)"

section \<open>The status routes (routes/status.ts)\<close>

text \<open>
  \<open>fileRetentionHours\<close> is \<open>parseInt(process.env.FILE_RETENTION_HOURS || '2', 10)\<close>: an
  integer, or NaN (\<open>None\<close>) when the variable does not start with a number.
\<close>

record ServerConfig =
  fileRetentionHours :: "int option"
  buildsDir :: jsstring

text \<open>A reply is an error reply (status code, error, message) or a sent body.\<close>

datatype 'a reply = Fail nat jsstring jsstring | Send 'a

record status_body =
  sb_taskId :: jsstring
  sb_status :: api_status
  sb_fileName :: "jsstring option"
  sb_expiresAt :: "int option"
  sb_retentionHours :: "int option"
  sb_progress :: "BuildJobProgress option"
  sb_queuePosition :: "nat option"
  sb_queueTotal :: "nat option"
  sb_result :: "(bool \<times> int option) option"
  sb_downloadUrl :: "jsstring option"
  sb_apkSize :: "nat option"
  sb_error :: "jsstring option"

definition buildFailed :: "JobStatus \<Rightarrow> bool" where
  "buildFailed jobStatus =
     (js_status jobStatus = completed \<and>
      (case js_result jobStatus of None \<Rightarrow> False | Some r \<Rightarrow> \<not> success r))"

definition hasApk :: "JobStatus \<Rightarrow> bool" where
  "hasApk jobStatus =
     (js_status jobStatus = completed \<and>
      (case js_result jobStatus of None \<Rightarrow> False | Some r \<Rightarrow> success r \<and> truthy (apkPath r)))"

definition statusError :: "JobStatus \<Rightarrow> jsstring option" where
  "statusError jobStatus =
     (if js_status jobStatus = failed then js_error jobStatus
      else if js_status jobStatus = completed then
        (case js_result jobStatus of
           None \<Rightarrow> None
         | Some r \<Rightarrow>
             if success r \<and> truthy (apkPath r) then None
             else if truthy (error r) then error r
             else None)
      else None)"

text \<open>
  A \<open>Date\<close> holds a time of at most 8.64e15 milliseconds either side of the epoch;
  \<open>toISOString\<close> of any other time raises RangeError. The handler guards NaN only, so an
  expiry time outside the range ends the request with the error reply of the server, 500.
\<close>

definition validTime :: "int \<Rightarrow> bool" where
  "validTime t = (- 8640000000000000 \<le> t \<and> t \<le> 8640000000000000)"

definition statusRoute :: "ServerConfig \<Rightarrow> filesystem \<Rightarrow> queue \<Rightarrow> jsstring \<Rightarrow> status_body reply" where
  "statusRoute config fs q tid =
     (let jobStatus = getJobStatus q tid;
          retentionHours = fileRetentionHours config;
          expiryTime = (case js_createdAt jobStatus of
                          None \<Rightarrow> None
                        | Some createdTime \<Rightarrow>
                            (case retentionHours of
                               None \<Rightarrow> None
                             | Some hours \<Rightarrow> Some (createdTime + hours * 60 * 60 * 1000)))
      in if (case expiryTime of None \<Rightarrow> False | Some t \<Rightarrow> \<not> validTime t)
         then Fail 500 (lit ''Internal Server Error'') (lit ''Invalid time value'')
         else if js_status jobStatus = not_found
         then Fail 404 (lit ''Not Found'') (lit ''Task '' @ tid @ lit '' not found'')
         else Send \<lparr>
           sb_taskId = tid,
           sb_status = (if buildFailed jobStatus then failed else js_status jobStatus),
           sb_fileName = (if truthy (js_appName jobStatus) then js_appName jobStatus else None),
           sb_expiresAt = expiryTime,
           sb_retentionHours = retentionHours,
           sb_progress = js_progress jobStatus,
           sb_queuePosition =
             (if js_status jobStatus = pending then js_queuePosition jobStatus else None),
           sb_queueTotal =
             (if js_status jobStatus = pending then js_queueTotal jobStatus else None),
           sb_result =
             (if js_status jobStatus = completed
              then map_option (\<lambda>r. (success r, duration r)) (js_result jobStatus) else None),
           sb_downloadUrl =
             (if hasApk jobStatus then Some (lit ''/api/build/'' @ tid @ lit ''/download'')
              else None),
           sb_apkSize =
             (if hasApk jobStatus
              then (case getApkSize fs (the (apkPath (the (js_result jobStatus)))) of
                      None \<Rightarrow> Some 0 | Some n \<Rightarrow> Some n)
              else None),
           sb_error = statusError jobStatus \<rparr>)"

text \<open>Whether the expiry time of a job is a time a \<open>Date\<close> can hold, or is not computed.\<close>

definition expiryInRange :: "ServerConfig \<Rightarrow> job \<Rightarrow> bool" where
  "expiryInRange config j =
     (case createdAt (job_data j) of
        None \<Rightarrow> True
      | Some createdTime \<Rightarrow>
          (case fileRetentionHours config of
             None \<Rightarrow> True
           | Some hours \<Rightarrow> validTime (createdTime + hours * 60 * 60 * 1000)))"

text \<open>
  The polling client (frontend build store, \<open>pollBuildStatus\<close>, the branch for a job that is
  neither completed, failed nor pending): the displayed progress never goes backwards and is
  at least 10.
\<close>

definition clientProgress :: "int \<Rightarrow> status_body \<Rightarrow> int" where
  "clientProgress currentProgress body =
     (let serverProgress = (case sb_progress body of None \<Rightarrow> 0 | Some p \<Rightarrow> percent p);
          nextProgress = max currentProgress serverProgress
      in if nextProgress < 10 then 10 else nextProgress)"

section \<open>Reading a reply; sample values\<close>

definition replyBody :: "'a reply \<Rightarrow> 'a option" where
  "replyBody r = (case r of Fail c e m \<Rightarrow> None | Send b \<Rightarrow> Some b)"

definition replyCode :: "'a reply \<Rightarrow> nat" where
  "replyCode r = (case r of Fail c e m \<Rightarrow> c | Send b \<Rightarrow> 200)"

definition sampleData :: BuildJobData where
  "sampleData = \<lparr> taskId = lit ''V1StGXR8_Z5j'', buildType = Zip,
     filePath = lit ''/tmp/uploads/V1StGXR8_Z5j/project.zip'', appName = lit ''MyApp'',
     appId = Some (lit ''com.example.reactapp''), iconPath = None, outputDir = lit ''/builds'',
     createdAt = Some 1764892800000 \<rparr>"

definition sampleJob :: "job_state \<Rightarrow> job" where
  "sampleJob st = \<lparr> job_id = lit ''V1StGXR8_Z5j'', job_state = st, job_data = sampleData,
     job_progress = None, returnvalue = None, failedReason = None \<rparr>"

definition sampleConfig :: ServerConfig where
  "sampleConfig = \<lparr> fileRetentionHours = Some 2, buildsDir = lit ''/builds'' \<rparr>"


text \<open>A retention so long that every expiry time falls outside the range of \<open>Date\<close>.\<close>

definition overflowConfig :: ServerConfig where
  "overflowConfig = \<lparr> fileRetentionHours = Some 2400000001, buildsDir = lit ''/builds'' \<rparr>"

definition polledPercent :: "status_body reply \<Rightarrow> int option" where
  "polledPercent r =
     (case r of Fail c e m \<Rightarrow> None
      | Send b \<Rightarrow> (case sb_progress b of None \<Rightarrow> None | Some p \<Rightarrow> Some (percent p)))"

definition sampleId :: jsstring where
  "sampleId = lit ''V1StGXR8_Z5j''"

definition failedResult :: "jsstring \<Rightarrow> BuildJobResult" where
  "failedResult msg = \<lparr> success = False, apkPath = None, error = Some msg, duration = Some 1500 \<rparr>"

definition completedJob :: "BuildJobResult \<Rightarrow> job" where
  "completedJob r = (sampleJob Completed)\<lparr> returnvalue := Some r \<rparr>"

definition activeJob :: "int \<Rightarrow> job" where
  "activeJob p = (sampleJob Active)\<lparr> job_progress :=
     Some \<lparr> message = lit ''Injecting app icon...'', percent = p \<rparr> \<rparr>"

section \<open>App identifier (builders/html-builder.ts)\<close>

definition isLower :: "nat \<Rightarrow> bool" where
  "isLower c = (97 \<le> c \<and> c \<le> 122)"

definition isDigit :: "nat \<Rightarrow> bool" where
  "isDigit c = (48 \<le> c \<and> c \<le> 57)"

definition isAlnumLower :: "nat \<Rightarrow> bool" where
  "isAlnumLower c = (isLower c \<or> isDigit c)"

definition isDot :: "nat \<Rightarrow> bool" where
  "isDot c = (c = 46)"

text \<open>
  \<open>String.prototype.toLowerCase\<close>: the ASCII letters A-Z become a-z and every other ASCII
  unit is kept. The lower-case form of a unit from 128 on comes from the platform's Unicode
  tables, which are not part of the repository and may look at the units around it; it is the
  parameter \<open>ul\<close>, called with the units before it, the unit itself, and the units after it.
\<close>

type_synonym unicode_lower = "jsstring \<Rightarrow> nat \<Rightarrow> jsstring \<Rightarrow> jsstring"

fun lowerFrom :: "unicode_lower \<Rightarrow> jsstring \<Rightarrow> jsstring \<Rightarrow> jsstring" where
  "lowerFrom ul prev [] = []"
| "lowerFrom ul prev (c # cs) =
     (if 65 \<le> c \<and> c \<le> 90 then [c + 32] else if c < 128 then [c] else ul prev c cs)
     @ lowerFrom ul (prev @ [c]) cs"

definition toLowerCase :: "unicode_lower \<Rightarrow> jsstring \<Rightarrow> jsstring" where
  "toLowerCase ul s = lowerFrom ul [] s"

text \<open>\<open>.replace(/[^a-z0-9]+/g, '.')\<close>: every maximal run of other units becomes one dot.\<close>

function replaceNonAlnumRuns :: "jsstring \<Rightarrow> jsstring" where
  "replaceNonAlnumRuns [] = []"
| "replaceNonAlnumRuns (c # cs) =
     (if isAlnumLower c then c # replaceNonAlnumRuns cs
      else 46 # replaceNonAlnumRuns (dropWhile (\<lambda>x. \<not> isAlnumLower x) cs))"
  by pat_completeness auto
termination
  by (relation "measure length") (auto simp: length_dropWhile_le less_Suc_eq_le)

text \<open>\<open>.replace(/\.+/g, '.')\<close>: every maximal run of dots becomes one dot.\<close>

function collapseDots :: "jsstring \<Rightarrow> jsstring" where
  "collapseDots [] = []"
| "collapseDots (c # cs) =
     (if isDot c then 46 # collapseDots (dropWhile isDot cs)
      else c # collapseDots cs)"
  by pat_completeness auto
termination
  by (relation "measure length") (auto simp: length_dropWhile_le less_Suc_eq_le)

text \<open>\<open>.replace(/^\.+|\.+$/g, '')\<close>: the leading and the trailing run of dots are removed.\<close>

definition stripDots :: "jsstring \<Rightarrow> jsstring" where
  "stripDots s = rev (dropWhile isDot (rev (dropWhile isDot s)))"

text \<open>
  \<open>split\<close> and \<open>join\<close> with a one-unit separator. Splitting the empty string gives one empty
  part.
\<close>

fun split :: "nat \<Rightarrow> jsstring \<Rightarrow> jsstring list" where
  "split sep [] = [[]]"
| "split sep (c # cs) =
     (if c = sep then [] # split sep cs
      else (case split sep cs of [] \<Rightarrow> [[c]] | p # ps \<Rightarrow> (c # p) # ps))"

fun join :: "nat \<Rightarrow> jsstring list \<Rightarrow> jsstring" where
  "join sep [] = []"
| "join sep [p] = p"
| "join sep (p # ps) = p @ sep # join sep ps"

text \<open>The decimal form of an index, as a template literal prints it.\<close>

fun decimal :: "nat \<Rightarrow> jsstring" where
  "decimal n = (if n < 10 then [48 + n] else decimal (n div 10) @ [48 + n mod 10])"

declare decimal.simps [simp del]

definition fixPart :: "nat \<times> jsstring \<Rightarrow> jsstring" where
  "fixPart ip =
     (case ip of (idx, part) \<Rightarrow>
        if part = [] then lit ''app'' @ decimal idx
        else if \<not> isLower (hd part) then 97 # part
        else part)"

definition generateAppId :: "unicode_lower \<Rightarrow> jsstring \<Rightarrow> jsstring" where
  "generateAppId ul name =
     (let sanitized = stripDots (collapseDots (replaceNonAlnumRuns (toLowerCase ul name)));
          sanitized = (if sanitized = [] then lit ''app'' else sanitized);
          parts = split 46 sanitized;
          fixedParts = map fixPart (enumerate 0 parts)
      in lit ''com.vibecoding.'' @ join 46 fixedParts)"

text \<open>
  The pattern \<open>^com\.vibecoding\.[a-z][a-z0-9]*(\.[a-z][a-z0-9]*)*$\<close>: after the prefix, the
  matcher is at the start of a segment (\<open>True\<close>) or inside one (\<open>False\<close>).
\<close>

fun matchSegments :: "bool \<Rightarrow> jsstring \<Rightarrow> bool" where
  "matchSegments True [] = False"
| "matchSegments False [] = True"
| "matchSegments True (c # cs) = (isLower c \<and> matchSegments False cs)"
| "matchSegments False (c # cs) =
     (if c = 46 then matchSegments True cs else isAlnumLower c \<and> matchSegments False cs)"

definition matchesAppIdPattern :: "jsstring \<Rightarrow> bool" where
  "matchesAppIdPattern r =
     (take 15 r = lit ''com.vibecoding.'' \<and> matchSegments True (drop 15 r))"

text \<open>A table that leaves every unit as it is: the case of scripts without letter case.\<close>

definition caselessTable :: unicode_lower where
  "caselessTable prev c rest = [c]"

text \<open>A sanitized unit is a lower-case letter, a digit or a dot.\<close>

definition okUnit :: "nat \<Rightarrow> bool" where
  "okUnit c = (isAlnumLower c \<or> isDot c)"

fun noDoubleDot :: "jsstring \<Rightarrow> bool" where
  "noDoubleDot [] = True"
| "noDoubleDot [c] = True"
| "noDoubleDot (c # d # cs) = (\<not> (isDot c \<and> isDot d) \<and> noDoubleDot (d # cs))"

definition goodPart :: "jsstring \<Rightarrow> bool" where
  "goodPart p = (p \<noteq> [] \<and> list_all isAlnumLower p)"

definition validSegment :: "jsstring \<Rightarrow> bool" where
  "validSegment p = (p \<noteq> [] \<and> isLower (hd p) \<and> list_all isAlnumLower (tl p))"

section \<open>Admission of a build (routes/build.ts)\<close>

text \<open>\<open>String.prototype.trim\<close> removes white space and line terminators at both ends.\<close>

definition isWhiteSpace :: "nat \<Rightarrow> bool" where
  "isWhiteSpace c =
     (c \<in> {9, 10, 11, 12, 13, 32, 160, 5760, 8232, 8233, 8239, 8287, 12288, 65279}
      \<or> (8192 \<le> c \<and> c \<le> 8202))"

definition trim :: "jsstring \<Rightarrow> jsstring" where
  "trim s = rev (dropWhile isWhiteSpace (rev (dropWhile isWhiteSpace s)))"

definition endsWith :: "jsstring \<Rightarrow> jsstring \<Rightarrow> bool" where
  "endsWith s suf = prefix (rev suf) (rev s)"

text \<open>A multipart part is a file (field name, file name, content) or a field (name, value).\<close>

datatype form_part = FilePart jsstring jsstring "nat list" | FieldPart jsstring jsstring

record upload =
  up_buffer :: "nat list"
  up_filename :: jsstring

record form_state =
  fs_file :: "upload option"
  fs_icon :: "upload option"
  fs_appName :: jsstring
  fs_appId :: "jsstring option"

definition initialForm :: form_state where
  "initialForm = \<lparr> fs_file = None, fs_icon = None, fs_appName = [], fs_appId = None \<rparr>"

text \<open>One round of the loop over \<open>request.parts()\<close>; both upload handlers run the same loop.\<close>

fun parsePart :: "unicode_lower \<Rightarrow> form_state \<Rightarrow> form_part \<Rightarrow> form_state" where
  "parsePart ul st (FilePart fieldname filename buffer) =
     (if fieldname = lit ''file''
      then st\<lparr> fs_file := Some \<lparr> up_buffer = buffer, up_filename = filename \<rparr> \<rparr>
      else if fieldname = lit ''icon''
      then (let iconFilename = toLowerCase ul filename
            in if endsWith iconFilename (lit ''.png'') \<or> endsWith iconFilename (lit ''.jpg'')
                  \<or> endsWith iconFilename (lit ''.jpeg'')
               then st\<lparr> fs_icon := Some \<lparr> up_buffer = buffer, up_filename = filename \<rparr> \<rparr>
               else st)
      else st)"
| "parsePart ul st (FieldPart fieldname v) =
     (if fieldname = lit ''appName'' then st\<lparr> fs_appName := trim v \<rparr>
      else if fieldname = lit ''appId''
      then st\<lparr> fs_appId := (let t = trim v in if t = [] then None else Some t) \<rparr>
      else st)"

text \<open>
  POSIX \<open>path.normalize\<close>: empty segments and \<open>.\<close> are dropped; \<open>..\<close> removes the segment
  before it, is kept at the start of a relative path, and is dropped at the root. The
  segments already accepted are held in reverse.
\<close>

fun normalizeSegments :: "bool \<Rightarrow> jsstring list \<Rightarrow> jsstring list \<Rightarrow> jsstring list" where
  "normalizeSegments allowAboveRoot res [] = rev res"
| "normalizeSegments allowAboveRoot res (s # ss) =
     (if s = [] \<or> s = [46] then normalizeSegments allowAboveRoot res ss
      else if s = [46, 46] then
        (case res of
           [] \<Rightarrow> normalizeSegments allowAboveRoot (if allowAboveRoot then [s] else []) ss
         | lastSeg # below \<Rightarrow>
             if lastSeg \<noteq> [46, 46] then normalizeSegments allowAboveRoot below ss
             else normalizeSegments allowAboveRoot (if allowAboveRoot then s # res else res) ss)
      else normalizeSegments allowAboveRoot (s # res) ss)"

definition pathNormalize :: "jsstring \<Rightarrow> jsstring" where
  "pathNormalize p =
     (if p = [] then [46]
      else
        let isAbsolute = (hd p = 47);
            trailingSeparator = (last p = 47);
            body = join 47 (normalizeSegments (\<not> isAbsolute) [] (split 47 p))
        in if body = [] then (if isAbsolute then [47] else if trailingSeparator then [46, 47] else [46])
           else (if isAbsolute then [47] else []) @ body @ (if trailingSeparator then [47] else []))"

text \<open>
  \<open>path.join\<close> of two arguments: the arguments that are not empty are put together with a
  separator and the result is normalized. \<open>saveUploadedFile\<close> stores an upload under the
  uploads directory of the storage defaults, in a subdirectory named by the task.
\<close>

definition pathJoin :: "jsstring \<Rightarrow> jsstring \<Rightarrow> jsstring" where
  "pathJoin dir name =
     (let joined = (if dir = [] then name else if name = [] then dir else dir @ 47 # name)
      in if joined = [] then [46] else pathNormalize joined)"

definition savedPath :: "jsstring \<Rightarrow> jsstring \<Rightarrow> jsstring \<Rightarrow> jsstring" where
  "savedPath uploadsDir tid filename = pathJoin (pathJoin uploadsDir tid) filename"

text \<open>
  The handler of POST /api/build/zip up to the job data it puts on the queue. Its parameters
  are what the platform provides: the lower-casing table, \<open>path.parse(f).name\<close>, the uploads
  directory of the storage defaults, the fresh task id and the current time.
\<close>

definition zipRoute ::
  "unicode_lower \<Rightarrow> (jsstring \<Rightarrow> jsstring) \<Rightarrow> jsstring \<Rightarrow> ServerConfig \<Rightarrow> jsstring \<Rightarrow> int
   \<Rightarrow> form_part list \<Rightarrow> BuildJobData reply" where
  "zipRoute ul parseName uploadsDir config tid now parts =
     (let st = foldl (parsePart ul) initialForm parts
      in case fs_file st of
           None \<Rightarrow> Fail 400 (lit ''Bad Request'') (lit ''No file uploaded. Please upload a ZIP file.'')
         | Some zipFile \<Rightarrow>
             if \<not> endsWith (toLowerCase ul (up_filename zipFile)) (lit ''.zip'')
             then Fail 400 (lit ''Bad Request'') (lit ''Invalid file type. Please upload a ZIP file.'')
             else
               let uploadedBaseName = parseName (up_filename zipFile);
                   name = (if fs_appName st \<noteq> [] then fs_appName st
                           else if uploadedBaseName \<noteq> [] then uploadedBaseName
                           else lit ''MyReactApp'');
                   ident = (if truthy (fs_appId st) then the (fs_appId st)
                            else lit ''com.example.reactapp'')
               in Send \<lparr> taskId = tid, buildType = Zip,
                    filePath = savedPath uploadsDir tid (up_filename zipFile),
                    appName = name, appId = Some ident,
                    iconPath = (case fs_icon st of
                                  None \<Rightarrow> None
                                | Some iconFile \<Rightarrow>
                                    Some (savedPath uploadsDir tid (lit ''icon-'' @ up_filename iconFile))),
                    outputDir = buildsDir config, createdAt = Some now \<rparr>)"

text \<open>
  The identifier a zip build runs with: the destructuring default of \<open>buildReactToApk\<close>
  applies when the job carries none.
\<close>

definition reactAppId :: "jsstring option \<Rightarrow> jsstring" where
  "reactAppId ident = (case ident of None \<Rightarrow> lit ''com.example.reactapp'' | Some a \<Rightarrow> a)"

text \<open>
  \<open>path.parse(f).name\<close> for a file name without a directory part: the name up to its last
  dot; the whole name when it has no dot, when its only dot is its first unit, or when it is
  \<open>..\<close>.
\<close>

definition plainBaseName :: "jsstring \<Rightarrow> jsstring" where
  "plainBaseName f =
     (let stem = dropWhile (\<lambda>c. c \<noteq> 46) (rev f)
      in if stem = [] \<or> tl stem = [] \<or> f = [46, 46] then f else rev (tl stem))"

definition zipUpload :: "form_part list" where
  "zipUpload = [FieldPart (lit ''appName'') (lit ''MyApp''), FieldPart (lit ''appId'') (lit ''  ''),
                FilePart (lit ''file'') (lit ''project.zip'') []]"

definition appIdOf :: "BuildJobData reply \<Rightarrow> jsstring option" where
  "appIdOf r = (case r of Fail c e m \<Rightarrow> None | Send d \<Rightarrow> appId d)"

definition appNameOf :: "BuildJobData reply \<Rightarrow> jsstring option" where
  "appNameOf r = (case r of Fail c e m \<Rightarrow> None | Send d \<Rightarrow> Some (appName d))"

section \<open>Progress heartbeat (builders/react-builder.ts)\<close>

text \<open>
  \<open>createProgressHeartbeat\<close> returns two closures over \<open>timer\<close> and \<open>currentPercent\<close>. The
  state keeps both variables, the constants the closures capture, and the number of interval
  timers that are installed and not cleared (\<open>start\<close> overwrites \<open>timer\<close> without clearing it).
  Percents are the integers the builder passes.
\<close>

record heartbeat =
  hb_onProgress :: bool
  hb_baseMessage :: jsstring
  hb_endPercent :: int
  hb_increment :: int
  hb_timer :: bool
  hb_live :: nat
  hb_currentPercent :: int

definition createProgressHeartbeat :: "bool \<Rightarrow> jsstring \<Rightarrow> int \<Rightarrow> int \<Rightarrow> heartbeat" where
  "createProgressHeartbeat onProgress baseMessage startPercent endPercent =
     \<lparr> hb_onProgress = onProgress, hb_baseMessage = baseMessage, hb_endPercent = endPercent,
       hb_increment = max 1 ((endPercent - startPercent) div 10),
       hb_timer = False, hb_live = 0, hb_currentPercent = startPercent \<rparr>"

text \<open>
  What happens to a heartbeat: \<open>start()\<close>, \<open>stop()\<close>, or one interval (\<open>intervalMs\<close>, 5000 by
  default) running out, which calls the callback of every installed timer.
\<close>

datatype hb_event = Start | Fire | Stop

text \<open>The callback of one timer: the new state and the progress calls it makes.\<close>

definition tick :: "heartbeat \<Rightarrow> heartbeat \<times> (jsstring \<times> int) list" where
  "tick h =
     (if hb_currentPercent h < hb_endPercent h - hb_increment h
      then (h\<lparr> hb_currentPercent := hb_currentPercent h + hb_increment h \<rparr>,
            [(hb_baseMessage h @ lit '' (in progress...)'', hb_currentPercent h + hb_increment h)])
      else (h, []))"

fun ticks :: "nat \<Rightarrow> heartbeat \<Rightarrow> heartbeat \<times> (jsstring \<times> int) list" where
  "ticks 0 h = (h, [])"
| "ticks (Suc n) h =
     (case tick h of (h', out) \<Rightarrow> (case ticks n h' of (h'', out') \<Rightarrow> (h'', out @ out')))"

fun hbStep :: "heartbeat \<Rightarrow> hb_event \<Rightarrow> heartbeat \<times> (jsstring \<times> int) list" where
  "hbStep h Start =
     (if \<not> hb_onProgress h then (h, [])
      else (h\<lparr> hb_timer := True, hb_live := Suc (hb_live h) \<rparr>, []))"
| "hbStep h Stop =
     (if hb_timer h then (h\<lparr> hb_timer := False, hb_live := hb_live h - 1 \<rparr>, []) else (h, []))"
| "hbStep h Fire = ticks (hb_live h) h"

fun hbRun :: "heartbeat \<Rightarrow> hb_event list \<Rightarrow> (jsstring \<times> int) list" where
  "hbRun h [] = []"
| "hbRun h (e # es) = (case hbStep h e of (h', out) \<Rightarrow> out @ hbRun h' es)"

text \<open>The heartbeat around the dependency install, and a subcommand that runs for a minute.\<close>

definition installHeartbeat :: heartbeat where
  "installHeartbeat = createProgressHeartbeat True (lit ''Installing dependencies'') 25 38"

definition oneMinute :: "hb_event list" where
  "oneMinute = [Start, Fire, Fire, Fire, Fire, Fire, Fire, Fire, Fire, Fire, Fire, Fire, Fire, Stop]"

section \<open>Download (routes/status.ts, GET /:taskId/download)\<close>

text \<open>
  The zip builder stores its artifact as \<open>appName--taskId.apk\<close> in the output directory
  (react-builder.ts, \<open>apkFileName\<close>); without a task id the name is \<open>appName.apk\<close>.
\<close>

definition apkFileName :: "jsstring \<Rightarrow> jsstring option \<Rightarrow> jsstring" where
  "apkFileName name tid =
     (if truthy tid then name @ lit ''--'' @ the tid @ lit ''.apk'' else name @ lit ''.apk'')"

text \<open>\<open>path.basename\<close>: trailing separators are ignored, the last component is returned.\<close>

definition basename :: "jsstring \<Rightarrow> jsstring" where
  "basename p = rev (takeWhile (\<lambda>c. c \<noteq> 47) (dropWhile (\<lambda>c. c = 47) (rev p)))"

definition isAlnum :: "nat \<Rightarrow> bool" where
  "isAlnum c = ((97 \<le> c \<and> c \<le> 122) \<or> (65 \<le> c \<and> c \<le> 90) \<or> (48 \<le> c \<and> c \<le> 57))"

definition isLineTerminator :: "nat \<Rightarrow> bool" where
  "isLineTerminator c = (c \<in> {10, 13, 8232, 8233})"

text \<open>
  \<open>filename.match(/^(.+)--[a-zA-Z0-9]+\.apk$/)\<close>, giving group 1. The name must end with
  \<open>.apk\<close>; before it stands a run of letters and digits, which is the whole run since the
  unit before it has to be a hyphen; before the two hyphens comes the group, which is not empty
  and has no line terminator. The match is read from the end of the name.
\<close>

definition taskIdMatch :: "jsstring \<Rightarrow> jsstring option" where
  "taskIdMatch filename =
     (let r = rev filename
      in if \<not> prefix (rev (lit ''.apk'')) r then None
         else let r1 = drop 4 r;
                  t = takeWhile isAlnum r1;
                  r2 = dropWhile isAlnum r1
              in if t = [] then None
                 else if \<not> prefix [45, 45] r2 then None
                 else let g = rev (drop 2 r2)
                      in if g = [] \<or> list_ex isLineTerminator g then None else Some g)"

definition userFilename :: "jsstring \<Rightarrow> jsstring" where
  "userFilename apk =
     (let filename = basename apk
      in case taskIdMatch filename of None \<Rightarrow> filename | Some g \<Rightarrow> g @ lit ''.apk'')"

text \<open>\<open>filename.replace(/[^\x00-\x7F]/g, '_')\<close>\<close>

definition asciiFilename :: "jsstring \<Rightarrow> jsstring" where
  "asciiFilename filename = map (\<lambda>c. if c > 127 then 95 else c) filename"

text \<open>
  \<open>encodeURIComponent\<close>: letters, digits and \<open>- _ . ! ~ * ' ( )\<close> are kept; every other
  code point is written as the percent-escaped bytes of its UTF-8 form; a surrogate without its
  partner raises URIError (\<open>None\<close>).
\<close>

definition hexDigit :: "nat \<Rightarrow> nat" where
  "hexDigit n = (if n < 10 then 48 + n else 55 + n)"

definition percentByte :: "nat \<Rightarrow> jsstring" where
  "percentByte b = [37, hexDigit (b div 16), hexDigit (b mod 16)]"

definition utf8 :: "nat \<Rightarrow> nat list" where
  "utf8 cp =
     (if cp < 128 then [cp]
      else if cp < 2048 then [192 + cp div 64, 128 + cp mod 64]
      else if cp < 65536 then [224 + cp div 4096, 128 + (cp div 64) mod 64, 128 + cp mod 64]
      else [240 + cp div 262144, 128 + (cp div 4096) mod 64, 128 + (cp div 64) mod 64,
            128 + cp mod 64])"

definition uriUnreserved :: "nat \<Rightarrow> bool" where
  "uriUnreserved c = (isAlnum c \<or> c \<in> {45, 95, 46, 33, 126, 42, 39, 40, 41})"

definition escapePoint :: "nat \<Rightarrow> jsstring" where
  "escapePoint cp = (if uriUnreserved cp then [cp] else concat (map percentByte (utf8 cp)))"

fun encodeURIComponent :: "jsstring \<Rightarrow> jsstring option" where
  "encodeURIComponent [] = Some []"
| "encodeURIComponent (c # cs) =
     (if c < 55296 \<or> 57343 < c
      then map_option (\<lambda>r. escapePoint c @ r) (encodeURIComponent cs)
      else if 56320 \<le> c then None
      else (case cs of
              [] \<Rightarrow> None
            | d # ds \<Rightarrow>
                if 56320 \<le> d \<and> d \<le> 57343
                then map_option
                       (\<lambda>r. escapePoint ((c - 55296) * 1024 + (d - 56320) + 65536) @ r)
                       (encodeURIComponent ds)
                else None))"

record download =
  dl_contentType :: jsstring
  dl_contentDisposition :: jsstring
  dl_file :: jsstring

definition statusName :: "api_status \<Rightarrow> jsstring" where
  "statusName s =
     (case s of pending \<Rightarrow> lit ''pending'' | active \<Rightarrow> lit ''active''
      | completed \<Rightarrow> lit ''completed'' | failed \<Rightarrow> lit ''failed''
      | not_found \<Rightarrow> lit ''not_found'')"

text \<open>
  A header value may hold a tab and the units 32 to 126 and 128 to 255; with any other unit
  setting the header raises an error.
\<close>

definition invalidHeaderChar :: "nat \<Rightarrow> bool" where
  "invalidHeaderChar c = (c \<noteq> 9 \<and> (c < 32 \<or> c = 127 \<or> 255 < c))"

text \<open>
  An exception in the handler (URIError of \<open>encodeURIComponent\<close>, or the refused header) is
  answered with 500 by the server.
\<close>

definition downloadRoute :: "filesystem \<Rightarrow> queue \<Rightarrow> jsstring \<Rightarrow> download reply" where
  "downloadRoute fs q tid =
     (let jobStatus = getJobStatus q tid
      in if js_status jobStatus = not_found
         then Fail 404 (lit ''Not Found'') (lit ''Task '' @ tid @ lit '' not found'')
         else if js_status jobStatus \<noteq> completed
         then Fail 400 (lit ''Bad Request'')
                (lit ''Task '' @ tid @ lit '' is not completed yet. Current status: ''
                 @ statusName (js_status jobStatus))
         else if \<not> hasApk jobStatus
         then Fail 400 (lit ''Bad Request'') (lit ''Build failed, no APK available for download'')
         else
           let apk = the (apkPath (the (js_result jobStatus)))
           in if \<not> pathExists fs apk
              then Fail 404 (lit ''Not Found'')
                     (lit ''APK file not found. It may have been cleaned up.'')
              else
                let filename = userFilename apk
                in case encodeURIComponent filename of
                     None \<Rightarrow> Fail 500 (lit ''Internal Server Error'') (lit ''URI malformed'')
                   | Some encodedFilename \<Rightarrow>
                       let disposition =
                             lit ''attachment; filename=\"'' @ asciiFilename filename
                             @ lit ''\"; filename*=UTF-8'' @ [39, 39] @ encodedFilename
                       in if list_ex invalidHeaderChar disposition
                          then Fail 500 (lit ''Internal Server Error'')
                                 (lit ''Invalid character in header content'')
                          else Send \<lparr> dl_contentType =
                                        lit ''application/vnd.android.package-archive'',
                                      dl_contentDisposition = disposition,
                                      dl_file = apk \<rparr>)"

text \<open>A zip build of MyApp that succeeded, its artifact stored under the task's id.\<close>

definition builtApk :: jsstring where
  "builtApk = pathJoin (lit ''/builds'') (apkFileName (lit ''MyApp'') (Some sampleId))"

definition builtJob :: job where
  "builtJob = completedJob
     \<lparr> success = True, apkPath = Some builtApk, error = None, duration = Some 1500 \<rparr>"

definition dispositionOf :: "download reply \<Rightarrow> jsstring option" where
  "dispositionOf r = (case r of Fail c e m \<Rightarrow> None | Send d \<Rightarrow> Some (dl_contentDisposition d))"

section \<open>Cancel and cleanup (DELETE /:taskId, services/storage.ts, services/queue.ts)\<close>

record StorageConfig =
  st_buildsDir :: jsstring
  st_uploadsDir :: jsstring

text \<open>A \<open>Partial<StorageConfig>\<close> and its merge over the defaults, \<open>{...defaultConfig, ...config}\<close>.\<close>

record PartialStorage =
  p_buildsDir :: "jsstring option"
  p_uploadsDir :: "jsstring option"

definition finalConfig :: "StorageConfig \<Rightarrow> PartialStorage \<Rightarrow> StorageConfig" where
  "finalConfig defaultConfig config =
     \<lparr> st_buildsDir = (case p_buildsDir config of None \<Rightarrow> st_buildsDir defaultConfig | Some b \<Rightarrow> b),
       st_uploadsDir = (case p_uploadsDir config of None \<Rightarrow> st_uploadsDir defaultConfig | Some u \<Rightarrow> u) \<rparr>"

text \<open>\<open>fs.remove\<close> deletes a path and everything below it.\<close>

definition fsRemove :: "filesystem \<Rightarrow> jsstring \<Rightarrow> filesystem" where
  "fsRemove fs p =
     filter (\<lambda>e. \<not> (fst e = noTrail p \<or> prefix (noTrail p @ [47]) (fst e))) fs"

definition cleanupTask ::
  "StorageConfig \<Rightarrow> jsstring \<Rightarrow> jsstring \<Rightarrow> PartialStorage \<Rightarrow> filesystem \<Rightarrow> filesystem" where
  "cleanupTask defaultConfig tid name config fs =
     (let final = finalConfig defaultConfig config;
          uploadDir = pathJoin (st_uploadsDir final) tid;
          fs1 = (if pathExists fs uploadDir then fsRemove fs uploadDir else fs);
          buildDir = pathJoin (st_buildsDir final) name
      in if pathExists fs1 buildDir then fsRemove fs1 buildDir else fs1)"

definition removeJob :: "queue \<Rightarrow> jsstring \<Rightarrow> bool \<times> queue" where
  "removeJob q tid =
     (case getJob q tid of
        None \<Rightarrow> (False, q)
      | Some j \<Rightarrow>
          if job_state j = Active then (False, q)
          else (True, filter (\<lambda>j. job_id j \<noteq> tid) q))"

text \<open>The handler returns its reply and leaves a file system and a queue behind.\<close>

definition deleteRoute ::
  "StorageConfig \<Rightarrow> ServerConfig \<Rightarrow> filesystem \<Rightarrow> queue \<Rightarrow> jsstring
   \<Rightarrow> jsstring reply \<times> filesystem \<times> queue" where
  "deleteRoute defaultConfig config fs q tid =
     (case getJob q tid of
        None \<Rightarrow> (Fail 404 (lit ''Not Found'') (lit ''Task '' @ tid @ lit '' not found''), fs, q)
      | Some j \<Rightarrow>
          if job_state j = Active
          then (Fail 400 (lit ''Bad Request'')
                  (lit ''Cannot cancel a task that is currently building. Please wait for it to complete.''),
                fs, q)
          else
            let name = appName (job_data j)
            in case removeJob q tid of (removed, q') \<Rightarrow>
                 if \<not> removed
                 then (Fail 500 (lit ''Internal Server Error'')
                         (lit ''Failed to remove task from queue''), fs, q')
                 else (Send (lit ''Task '' @ tid @ lit '' has been deleted''),
                       cleanupTask defaultConfig tid name
                         \<lparr> p_buildsDir = Some (buildsDir config), p_uploadsDir = None \<rparr> fs,
                       q'))"

text \<open>The storage defaults, and the files of the finished zip build of MyApp.\<close>

definition sampleStorage :: StorageConfig where
  "sampleStorage = \<lparr> st_buildsDir = lit ''/builds'', st_uploadsDir = lit ''/tmp/uploads'' \<rparr>"

definition builtFiles :: filesystem where
  "builtFiles =
     [(lit ''/tmp/uploads/V1StGXR8_Z5j'', Dir 4096),
      (lit ''/tmp/uploads/V1StGXR8_Z5j/project.zip'', File 2048),
      (builtApk, File 1024)]"

section \<open>Searching in strings\<close>

text \<open>\<open>String.prototype.includes\<close>: the pattern starts at some position of the string.\<close>

fun includesStr :: "jsstring \<Rightarrow> jsstring \<Rightarrow> bool" where
  "includesStr [] pat = (pat = [])"
| "includesStr (c # cs) pat = (prefix pat (c # cs) \<or> includesStr cs pat)"

text \<open>
  A regular expression with the flag \<open>i\<close> (and without \<open>u\<close>) compares the canonical forms of
  units, their upper-case forms; a unit from 128 on never has a canonical form below 128, so
  against the ASCII patterns of this code only the ASCII letters are folded.
\<close>

definition canon :: "nat \<Rightarrow> nat" where
  "canon c = (if 97 \<le> c \<and> c \<le> 122 then c - 32 else c)"

fun ciPrefix :: "jsstring \<Rightarrow> jsstring \<Rightarrow> bool" where
  "ciPrefix [] s = True"
| "ciPrefix (p # ps) [] = False"
| "ciPrefix (p # ps) (c # cs) = (canon p = canon c \<and> ciPrefix ps cs)"

text \<open>\<open>/literal/i.test(s)\<close> for a pattern without operators.\<close>

fun testCI :: "jsstring \<Rightarrow> jsstring \<Rightarrow> bool" where
  "testCI pat [] = (pat = [])"
| "testCI pat (c # cs) = (ciPrefix pat (c # cs) \<or> testCI pat cs)"

section \<open>Offlineify trigger (utils/offlineify.ts)\<close>

definition CDN_PATTERNS :: "jsstring list" where
  "CDN_PATTERNS =
     [lit ''cdn.tailwindcss.com'', lit ''unpkg.com'', lit ''fonts.googleapis.com'',
      lit ''@babel/standalone'', lit ''canvas-confetti'', lit ''cdnjs.cloudflare.com'']"

definition BABEL_SCRIPT_PATTERN :: jsstring where
  "BABEL_SCRIPT_PATTERN = lit ''text/babel''"

text \<open>The loop over the patterns returns at the first one that matches.\<close>

fun anyPattern :: "jsstring list \<Rightarrow> jsstring \<Rightarrow> bool" where
  "anyPattern [] htmlContent = False"
| "anyPattern (pattern # rest) htmlContent =
     (if testCI pattern htmlContent then True else anyPattern rest htmlContent)"

definition needsOfflineify :: "jsstring \<Rightarrow> bool" where
  "needsOfflineify htmlContent =
     (if anyPattern CDN_PATTERNS htmlContent then True
      else if testCI BABEL_SCRIPT_PATTERN htmlContent then True
      else False)"

text \<open>
  Two units are the same letter when they are equal or are the upper-case and the lower-case
  form of one ASCII letter. A string carries a signature when a piece of it is the signature,
  letter for letter.
\<close>

definition sameLetter :: "nat \<Rightarrow> nat \<Rightarrow> bool" where
  "sameLetter a b =
     (a = b \<or> (65 \<le> a \<and> a \<le> 90 \<and> b = a + 32) \<or> (65 \<le> b \<and> b \<le> 90 \<and> a = b + 32))"

definition carries :: "jsstring \<Rightarrow> jsstring \<Rightarrow> bool" where
  "carries h sig = (\<exists>a m b. h = a @ m @ b \<and> list_all2 sameLetter m sig)"

text \<open>
  The signatures as the specification words them: the host name of a CDN, a script tag of type
  \<open>text/babel\<close> (a \<open><script\<close> that has \<open>text/babel\<close> before its \<open>>\<close>), or an \<open>@import\<close>
  of Google Fonts (an \<open>@import\<close> followed by the host \<open>fonts.googleapis.com\<close>). The CDN
  hosts are the host names among the patterns of the code.
\<close>

definition cdnHost :: "jsstring \<Rightarrow> bool" where
  "cdnHost h =
     (carries h (lit ''cdn.tailwindcss.com'') \<or> carries h (lit ''unpkg.com'') \<or>
      carries h (lit ''fonts.googleapis.com'') \<or> carries h (lit ''cdnjs.cloudflare.com''))"

definition babelScriptTag :: "jsstring \<Rightarrow> bool" where
  "babelScriptTag h =
     (\<exists>a t b. h = a @ t @ b \<and> 62 \<notin> set t \<and> list_all2 sameLetter (take 7 t) (lit ''<script'')
        \<and> carries t (lit ''text/babel''))"

definition googleFontsImport :: "jsstring \<Rightarrow> bool" where
  "googleFontsImport h =
     (\<exists>x y. h = x @ y \<and> carries x (lit ''@import'') \<and> carries y (lit ''fonts.googleapis.com''))"

definition specSignature :: "jsstring \<Rightarrow> bool" where
  "specSignature h =
     (cdnHost h \<or> babelScriptTag h \<or> googleFontsImport h)"

text \<open>A page that mentions a library by name, and a page with a script compiled by Babel.\<close>

definition confettiPage :: jsstring where
  "confettiPage = lit ''<p>I love canvas-confetti</p>''"

definition babelPage :: jsstring where
  "babelPage = lit ''<script type=\"text/babel\">const App = 1;</script>''"

section \<open>Preparing the page (builders/html-builder.ts, prepareHtmlForCordova)\<close>

text \<open>
  The first match of \<open>/<head([^>]*)>/i\<close>: the text before it, group 1, and the text after
  it. A match starts at the first \<open><head\<close> that has a \<open>>\<close> somewhere behind it; the group
  runs up to the first such \<open>>\<close>.
\<close>

fun findHead :: "jsstring \<Rightarrow> (jsstring \<times> jsstring \<times> jsstring) option" where
  "findHead [] = None"
| "findHead (c # cs) =
     (if ciPrefix (lit ''<head'') (c # cs) \<and> 62 \<in> set (drop 5 (c # cs))
      then Some ([], takeWhile (\<lambda>x. x \<noteq> 62) (drop 5 (c # cs)),
                 tl (dropWhile (\<lambda>x. x \<noteq> 62) (drop 5 (c # cs))))
      else (case findHead cs of
              None \<Rightarrow> None
            | Some (a, g, b) \<Rightarrow> Some (c # a, g, b)))"

text \<open>\<open>html.replace(/<head([^>]*)>/i, '<head$1>' + inserted)\<close>\<close>

definition replaceHead :: "jsstring \<Rightarrow> jsstring \<Rightarrow> jsstring" where
  "replaceHead inserted html =
     (case findHead html of
        None \<Rightarrow> html
      | Some (a, g, b) \<Rightarrow> a @ lit ''<head'' @ g @ [62] @ inserted @ b)"

text \<open>The first occurrence of a string: the text before it and the text after it.\<close>

fun splitAt :: "jsstring \<Rightarrow> jsstring \<Rightarrow> (jsstring \<times> jsstring) option" where
  "splitAt pat [] = (if pat = [] then Some ([], []) else None)"
| "splitAt pat (c # cs) =
     (if prefix pat (c # cs) then Some ([], drop (length pat) (c # cs))
      else (case splitAt pat cs of
              None \<Rightarrow> None
            | Some (a, b) \<Rightarrow> Some (c # a, b)))"

text \<open>\<open>html.replace(pat, replacement)\<close> with a string pattern and a replacement without \<open>$\<close>.\<close>

definition replaceFirst :: "jsstring \<Rightarrow> jsstring \<Rightarrow> jsstring \<Rightarrow> jsstring" where
  "replaceFirst pat replacement html =
     (case splitAt pat html of
        None \<Rightarrow> html
      | Some (a, b) \<Rightarrow> a @ replacement @ b)"

definition viewportMeta :: jsstring where
  "viewportMeta = 10 # lit ''    <meta name=\"viewport\" content=\"width=device-width, initial-scale=1.0, maximum-scale=1.0, user-scalable=no\">''"

definition cspMeta :: jsstring where
  "cspMeta = 10 # lit ''    <meta http-equiv=\"Content-Security-Policy\" content=\"default-src * ''
     @ 39 # lit ''self'' @ 39 # 32 # 39 # lit ''unsafe-inline'' @ 39 # 32 # 39 # lit ''unsafe-eval''
     @ 39 # lit '' data: gap: content:\">''"

definition cordovaScript :: jsstring where
  "cordovaScript = lit ''    <script src=\"cordova.js\"></script>'' @ [10]"

definition prepareHtmlForCordova :: "jsstring \<Rightarrow> jsstring" where
  "prepareHtmlForCordova htmlContent =
     (let html = htmlContent;
          html = (if \<not> includesStr html (lit ''viewport'') then replaceHead viewportMeta html
                  else html);
          html = (if \<not> includesStr html (lit ''Content-Security-Policy'')
                  then replaceHead cspMeta html else html);
          html = (if \<not> includesStr html (lit ''cordova.js'')
                  then replaceFirst (lit ''</body>'') (cordovaScript @ lit ''</body>'') html
                  else html)
      in html)"

text \<open>The number of positions at which a pattern starts.\<close>

fun countOcc :: "jsstring \<Rightarrow> jsstring \<Rightarrow> nat" where
  "countOcc pat [] = 0"
| "countOcc pat (c # cs) = (if prefix pat (c # cs) then 1 else 0) + countOcc pat cs"

definition hasHead :: "jsstring \<Rightarrow> bool" where
  "hasHead html = (findHead html \<noteq> None)"

text \<open>The three patches of \<open>prepareHtmlForCordova\<close>, one at a time.\<close>

definition addViewport :: "jsstring \<Rightarrow> jsstring" where
  "addViewport html =
     (if \<not> includesStr html (lit ''viewport'') then replaceHead viewportMeta html else html)"

definition addCsp :: "jsstring \<Rightarrow> jsstring" where
  "addCsp html =
     (if \<not> includesStr html (lit ''Content-Security-Policy'') then replaceHead cspMeta html
      else html)"

definition addCordova :: "jsstring \<Rightarrow> jsstring" where
  "addCordova html =
     (if \<not> includesStr html (lit ''cordova.js'')
      then replaceFirst (lit ''</body>'') (cordovaScript @ lit ''</body>'') html
      else html)"

text \<open>The letters that can follow \<open><\<close> in a match of \<open><head\<close>.\<close>

definition headLetters :: "nat set" where
  "headLetters = {72, 69, 65, 68, 104, 101, 97, 100}"

text \<open>What the three marker strings have in common.\<close>

definition plainMarker :: "jsstring \<Rightarrow> bool" where
  "plainMarker m = (m \<noteq> [] \<and> 60 \<notin> set m \<and> 62 \<notin> set m \<and> 32 \<notin> set m \<and> hd m \<notin> headLetters)"

section \<open>Evaluating literals\<close>

lemma lit_Nil: "lit [] = []" by (simp add: lit_def)

lemma lit_Cons: "lit (c # cs) = of_char c # lit cs" by (simp add: lit_def)

section \<open>Status values (GET /api/build/:taskId/status)\<close>

lemma getJobStatus_not_found:
  "js_status (getJobStatus q tid) = not_found \<longleftrightarrow> getJob q tid = None"
  by (auto simp: getJobStatus_def noStatus_def pendingStatus_def Let_def
      split: option.splits job_state.splits)

lemma getJobStatus_createdAt:
  "getJob q tid = Some j \<Longrightarrow> js_createdAt (getJobStatus q tid) = createdAt (job_data j)"
  by (cases "job_state j") (simp_all add: getJobStatus_def noStatus_def pendingStatus_def Let_def)

lemma getJobPosition_pending:
  "getJob q tid = Some j \<Longrightarrow> job_state j \<notin> {Completed, Failed, Active} \<Longrightarrow>
   js_status (getJobStatus q tid) = pending \<and>
   (\<exists>n. js_queuePosition (getJobStatus q tid) = Some n \<and> 1 \<le> n)"
  by (cases "job_state j") (auto simp: getJobStatus_def noStatus_def pendingStatus_def Let_def)

text \<open>An existing job is answered with a body, or with 500 when its expiry time overflows.\<close>

lemma statusRoute_sends:
  "getJob q tid = Some j \<Longrightarrow> expiryInRange config j \<Longrightarrow>
   \<exists>body. statusRoute config fs q tid = Send body"
  using getJobStatus_not_found[of q tid]
  by (auto simp: statusRoute_def Let_def expiryInRange_def getJobStatus_createdAt
      split: option.splits)

lemma statusRoute_overflow:
  "getJob q tid = Some j \<Longrightarrow> \<not> expiryInRange config j \<Longrightarrow>
   \<exists>e m. statusRoute config fs q tid = Fail 500 e m"
  by (auto simp: statusRoute_def Let_def expiryInRange_def getJobStatus_createdAt
      split: option.splits)

lemma statusRoute_body:
  assumes "statusRoute config fs q tid = Send body"
  shows "sb_status body =
           (if buildFailed (getJobStatus q tid) then failed else js_status (getJobStatus q tid))"
    and "sb_queuePosition body =
           (if js_status (getJobStatus q tid) = pending
            then js_queuePosition (getJobStatus q tid) else None)"
    and "sb_progress body = js_progress (getJobStatus q tid)"
    and "sb_error body = statusError (getJobStatus q tid)"
  using assms by (auto simp: statusRoute_def Let_def split: if_splits)

text \<open>
  Claim C10. Every body the status route sends for an existing job has a status among
  pending, active, completed and failed; a job in any queue state other than completed, failed
  or active (waiting, delayed, prioritized, or a state the code does not name) is reported as
  pending with a queue position of at least 1. A task that does not exist is answered with
  404, so \<open>not_found\<close> is never the status of a sent body. A body is sent for every existing
  job whose expiry time is a time a \<open>Date\<close> can hold; otherwise the answer is 500.
\<close>

theorem status_value_domain:
  "(getJob q tid = None \<longrightarrow> (\<exists>e m. statusRoute config fs q tid = Fail 404 e m)) \<and>
   (\<forall>j. getJob q tid = Some j \<longrightarrow>
      (expiryInRange config j \<longrightarrow> (\<exists>body. statusRoute config fs q tid = Send body)) \<and>
      (\<not> expiryInRange config j \<longrightarrow> (\<exists>e m. statusRoute config fs q tid = Fail 500 e m)) \<and>
      (\<forall>body. statusRoute config fs q tid = Send body \<longrightarrow>
         sb_status body \<in> {pending, active, completed, failed} \<and>
         (job_state j \<notin> {Completed, Failed, Active} \<longrightarrow>
            sb_status body = pending \<and>
            (\<exists>n. sb_queuePosition body = Some n \<and> 1 \<le> n))))"
proof (intro conjI allI impI)
  assume n: "getJob q tid = None"
  then have "js_status (getJobStatus q tid) = not_found" by (simp add: getJobStatus_not_found)
  moreover from n have "js_createdAt (getJobStatus q tid) = None"
    by (simp add: getJobStatus_def noStatus_def)
  ultimately show "\<exists>e m. statusRoute config fs q tid = Fail 404 e m"
    by (simp add: statusRoute_def Let_def)
next
  fix j assume "getJob q tid = Some j" and "expiryInRange config j"
  then show "\<exists>body. statusRoute config fs q tid = Send body" by (rule statusRoute_sends)
next
  fix j assume "getJob q tid = Some j" and "\<not> expiryInRange config j"
  then show "\<exists>e m. statusRoute config fs q tid = Fail 500 e m" by (rule statusRoute_overflow)
next
  fix j body assume j: "getJob q tid = Some j" and body: "statusRoute config fs q tid = Send body"
  from j have nf: "js_status (getJobStatus q tid) \<noteq> not_found"
    by (simp add: getJobStatus_not_found)
  with statusRoute_body(1)[OF body]
  show "sb_status body \<in> {pending, active, completed, failed}"
    by (cases "js_status (getJobStatus q tid)") auto
next
  fix j body assume j: "getJob q tid = Some j" and body: "statusRoute config fs q tid = Send body"
    and s: "job_state j \<notin> {Completed, Failed, Active}"
  from getJobPosition_pending[OF j s] statusRoute_body(1,2)[OF body]
  show "sb_status body = pending" and "\<exists>n. sb_queuePosition body = Some n \<and> 1 \<le> n"
    by (auto simp: buildFailed_def)
qed

lemma sampleId_job: "job_id (sampleJob st) = sampleId"
  by (simp add: sampleJob_def sampleId_def)

lemma sample_in_range: "expiryInRange sampleConfig (sampleJob st)"
  by (simp add: expiryInRange_def sampleConfig_def sampleJob_def sampleData_def validTime_def)

lemmas status_eval = statusRoute_def Let_def getJobStatus_def getJob_def sampleJob_def
  sampleData_def sampleId_def sampleConfig_def noStatus_def pendingStatus_def validTime_def

theorem status_value_domain_witness:
  "replyCode (statusRoute sampleConfig [] [] sampleId) = 404 \<and>
   map_option sb_status (replyBody (statusRoute sampleConfig [] [sampleJob Delayed] sampleId))
     = Some pending \<and>
   map_option sb_queuePosition (replyBody (statusRoute sampleConfig [] [sampleJob Delayed] sampleId))
     = Some (Some 1) \<and>
   replyCode (statusRoute overflowConfig [] [sampleJob Delayed] sampleId) = 500"
proof -
  have a: "getJob [] sampleId = None" by (simp add: getJob_def)
  have b: "getJob [sampleJob Delayed] sampleId = Some (sampleJob Delayed)"
    by (simp add: getJob_def sampleId_job)
  have c: "job_state (sampleJob Delayed) \<notin> {Completed, Failed, Active}"
    by (simp add: sampleJob_def)
  have o: "\<not> expiryInRange overflowConfig (sampleJob Delayed)"
    by (simp add: expiryInRange_def overflowConfig_def sampleJob_def sampleData_def validTime_def)
  from status_value_domain[of "[]" sampleId sampleConfig "[]"] a
  have d: "replyCode (statusRoute sampleConfig [] [] sampleId) = 404"
    by (auto simp: replyCode_def)
  from status_value_domain[of "[sampleJob Delayed]" sampleId sampleConfig "[]"] b sample_in_range
  obtain body where e: "statusRoute sampleConfig [] [sampleJob Delayed] sampleId = Send body"
    by blast
  from status_value_domain[of "[sampleJob Delayed]" sampleId sampleConfig "[]"] b c e
  have f: "sb_status body = pending" by blast
  from status_value_domain[of "[sampleJob Delayed]" sampleId overflowConfig "[]"] b o
  have g: "replyCode (statusRoute overflowConfig [] [sampleJob Delayed] sampleId) = 500"
    by (auto simp: replyCode_def)
  have h: "map_option sb_queuePosition
      (replyBody (statusRoute sampleConfig [] [sampleJob Delayed] sampleId)) = Some (Some 1)"
    by (simp add: status_eval replyBody_def getJobPosition_def getQueueStats_def)
  from d e f g h show ?thesis by (simp add: replyBody_def)
qed

section \<open>Status collapse\<close>

text \<open>
  A build that completed with \<open>{success: false, error: ""}\<close> is reported as failed, but the
  reply carries no error field: the route copies the message only when it is truthy.
\<close>

theorem status_collapse_empty_error:
  "\<not> success (failedResult []) \<and> error (failedResult []) = Some [] \<and>
   map_option sb_status (replyBody (statusRoute sampleConfig [] [completedJob (failedResult [])] sampleId))
     = Some failed \<and>
   map_option sb_error (replyBody (statusRoute sampleConfig [] [completedJob (failedResult [])] sampleId))
     = Some None"
  by (simp add: status_eval completedJob_def replyBody_def failedResult_def buildFailed_def
      statusError_def truthy_def hasApk_def)

text \<open>
  Claim C2 (amended). For a job in the completed state whose result has \<open>success = false\<close>,
  every body the status route sends has status failed, never completed; its error field is the
  result's error message when that message is present and not empty, and is absent otherwise.
  The body is sent whenever the expiry time of the job is a time a \<open>Date\<close> can hold.
\<close>

theorem status_collapse:
  assumes "getJob q tid = Some j" and "job_state j = Completed"
    and "returnvalue j = Some r" and "\<not> success r"
  shows "(expiryInRange config j \<longrightarrow> (\<exists>body. statusRoute config fs q tid = Send body)) \<and>
         (\<forall>body. statusRoute config fs q tid = Send body \<longrightarrow>
            sb_status body = failed \<and> sb_status body \<noteq> completed \<and>
            sb_error body = (if truthy (error r) then error r else None))"
proof (intro conjI allI impI)
  assume "expiryInRange config j"
  with assms(1) show "\<exists>body. statusRoute config fs q tid = Send body"
    by (rule statusRoute_sends)
next
  fix body assume body: "statusRoute config fs q tid = Send body"
  from assms have s: "getJobStatus q tid = (noStatus completed)\<lparr> js_progress := job_progress j,
      js_result := Some r, js_createdAt := createdAt (job_data j),
      js_appName := Some (appName (job_data j)) \<rparr>"
    by (simp add: getJobStatus_def)
  from statusRoute_body(1)[OF body] s assms(4)
  show "sb_status body = failed" and "sb_status body \<noteq> completed"
    by (simp_all add: buildFailed_def noStatus_def)
  from statusRoute_body(4)[OF body] s assms(4)
  show "sb_error body = (if truthy (error r) then error r else None)"
    by (simp add: statusError_def noStatus_def)
qed

theorem status_collapse_witness:
  "map_option sb_status (replyBody (statusRoute sampleConfig []
       [completedJob (failedResult (lit ''gradle exited 1''))] sampleId)) = Some failed \<and>
   map_option sb_error (replyBody (statusRoute sampleConfig []
       [completedJob (failedResult (lit ''gradle exited 1''))] sampleId))
     = Some (Some (lit ''gradle exited 1''))"
proof -
  let ?r = "failedResult (lit ''gradle exited 1'')"
  have a: "getJob [completedJob ?r] sampleId = Some (completedJob ?r)"
    by (simp add: getJob_def completedJob_def sampleId_job)
  have b: "job_state (completedJob ?r) = Completed" "returnvalue (completedJob ?r) = Some ?r"
    by (simp_all add: completedJob_def sampleJob_def)
  have c: "\<not> success ?r" "truthy (error ?r)" "error ?r = Some (lit ''gradle exited 1'')"
    by (simp_all add: failedResult_def truthy_def lit_def)
  have i: "expiryInRange sampleConfig (completedJob ?r)"
    by (simp add: expiryInRange_def sampleConfig_def completedJob_def sampleJob_def
        sampleData_def validTime_def)
  note t = status_collapse[OF a b c(1), of sampleConfig "[]"]
  from t i obtain body where
    e: "statusRoute sampleConfig [] [completedJob ?r] sampleId = Send body" by blast
  with t c have "sb_status body = failed" "sb_error body = Some (lit ''gradle exited 1'')"
    by auto
  with e show ?thesis by (simp add: replyBody_def)
qed

section \<open>Progress as seen by a poller\<close>

lemma getJob_updateProgress:
  "getJob (updateProgress q tid msg pct) tid =
     map_option (\<lambda>j. j\<lparr> job_progress :=
        Some \<lparr> message = msg, percent = (case pct of None \<Rightarrow> 0 | Some p \<Rightarrow> p) \<rparr> \<rparr>) (getJob q tid)"
  by (induction q) (auto simp: getJob_def updateProgress_def)

text \<open>
  Two polls of an active job: the first sees 42; the worker then reports a message without a
  percent (as \<open>injectIcon\<close> does), which stores 0, and the second poll sees 0.
\<close>

theorem progress_regression:
  "polledPercent (statusRoute sampleConfig [] [activeJob 42] sampleId) = Some 42 \<and>
   polledPercent (statusRoute sampleConfig []
      (updateProgress [activeJob 42] sampleId (lit ''Injecting default app icon...'') None) sampleId)
     = Some 0"
  by (simp add: status_eval activeJob_def polledPercent_def updateProgress_def)

text \<open>
  Claim C9 (amended). For an active job every body the status route sends carries the
  progress object last written by the worker, unchanged: after a write it is the written
  message with the written percent (0 when the write had none), whatever was polled before.
  The body is sent whenever the expiry time of the job is a time a \<open>Date\<close> can hold. The
  clamping is done by the polling client: what it displays is the largest of 10, the value it
  displayed before, and the polled percent.
\<close>

theorem progress_last_write:
  assumes "getJob q tid = Some j" and "job_state j = Active"
  shows "(expiryInRange config j \<longrightarrow>
            (\<exists>body. statusRoute config fs q tid = Send body) \<and>
            (\<exists>body. statusRoute config fs (updateProgress q tid msg pct) tid = Send body)) \<and>
         (\<forall>body. statusRoute config fs q tid = Send body \<longrightarrow> sb_progress body = job_progress j) \<and>
         (\<forall>body. statusRoute config fs (updateProgress q tid msg pct) tid = Send body \<longrightarrow>
            sb_progress body =
              Some \<lparr> message = msg, percent = (case pct of None \<Rightarrow> 0 | Some p \<Rightarrow> p) \<rparr>) \<and>
         clientProgress currentProgress shown =
           max 10 (max currentProgress
                     (case sb_progress shown of None \<Rightarrow> 0 | Some p \<Rightarrow> percent p)) \<and>
         currentProgress \<le> clientProgress currentProgress shown \<and>
         (case sb_progress shown of None \<Rightarrow> True
          | Some p \<Rightarrow> percent p \<le> clientProgress currentProgress shown)"
proof -
  let ?w = "Some \<lparr> message = msg, percent = (case pct of None \<Rightarrow> 0 | Some p \<Rightarrow> p) \<rparr>"
  let ?j' = "j\<lparr> job_progress := ?w \<rparr>"
  let ?q' = "updateProgress q tid msg pct"
  from assms(1) have j': "getJob ?q' tid = Some ?j'" by (simp add: getJob_updateProgress)
  have r: "expiryInRange config ?j' = expiryInRange config j" by (simp add: expiryInRange_def)
  have 1: "expiryInRange config j \<longrightarrow>
            (\<exists>body. statusRoute config fs q tid = Send body) \<and>
            (\<exists>body. statusRoute config fs ?q' tid = Send body)"
    using statusRoute_sends[OF assms(1), of config fs] statusRoute_sends[OF j', of config fs] r
    by blast
  have 2: "\<forall>body. statusRoute config fs q tid = Send body \<longrightarrow> sb_progress body = job_progress j"
    using assms statusRoute_body(3)[of config fs q tid]
    by (simp add: getJobStatus_def noStatus_def)
  have 3: "\<forall>body. statusRoute config fs ?q' tid = Send body \<longrightarrow> sb_progress body = ?w"
    using assms(2) j' statusRoute_body(3)[of config fs ?q' tid]
    by (simp add: getJobStatus_def noStatus_def)
  have 4: "clientProgress currentProgress shown =
           max 10 (max currentProgress
                     (case sb_progress shown of None \<Rightarrow> 0 | Some p \<Rightarrow> percent p))"
    by (auto simp: clientProgress_def Let_def max_def)
  have 5: "currentProgress \<le> clientProgress currentProgress shown"
    by (simp add: clientProgress_def Let_def)
  have 6: "(case sb_progress shown of None \<Rightarrow> True
          | Some p \<Rightarrow> percent p \<le> clientProgress currentProgress shown)"
    by (simp add: clientProgress_def Let_def split: option.splits)
  from 1 2 3 4 5 6 show ?thesis by blast
qed

theorem progress_last_write_witness:
  "map_option sb_progress (replyBody (statusRoute sampleConfig [] [activeJob 42] sampleId))
     = Some (Some \<lparr> message = lit ''Injecting app icon...'', percent = 42 \<rparr>) \<and>
   map_option sb_progress (replyBody (statusRoute sampleConfig []
      (updateProgress [activeJob 42] sampleId (lit ''Building APK'') (Some 45)) sampleId))
     = Some (Some \<lparr> message = lit ''Building APK'', percent = 45 \<rparr>)"
proof -
  let ?q' = "updateProgress [activeJob 42] sampleId (lit ''Building APK'') (Some 45)"
  have a: "getJob [activeJob 42] sampleId = Some (activeJob 42)"
    by (simp add: getJob_def activeJob_def sampleId_job)
  have b: "job_state (activeJob 42) = Active" "job_progress (activeJob 42) =
      Some \<lparr> message = lit ''Injecting app icon...'', percent = 42 \<rparr>"
    by (simp_all add: activeJob_def sampleJob_def)
  have i: "expiryInRange sampleConfig (activeJob 42)"
    by (simp add: expiryInRange_def sampleConfig_def activeJob_def sampleJob_def
        sampleData_def validTime_def)
  note t = progress_last_write[OF a b(1), of sampleConfig "[]" "lit ''Building APK''" "Some 45"]
  from t i obtain body body' where
    e: "statusRoute sampleConfig [] [activeJob 42] sampleId = Send body"
       "statusRoute sampleConfig [] ?q' sampleId = Send body'" by blast
  with t b have "sb_progress body = Some \<lparr> message = lit ''Injecting app icon...'', percent = 42 \<rparr>"
    "sb_progress body' = Some \<lparr> message = lit ''Building APK'', percent = 45 \<rparr>"
    by auto
  with e show ?thesis by (simp add: replyBody_def)
qed

section \<open>The derived app identifier\<close>

lemmas appid_eval = generateAppId_def toLowerCase_def stripDots_def fixPart_def
  isAlnumLower_def isLower_def isDigit_def isDot_def Let_def lit_Nil lit_Cons enumerate_eq_zip

lemma alnum_not_dot: "isAlnumLower c \<Longrightarrow> \<not> isDot c"
  by (auto simp: isAlnumLower_def isLower_def isDigit_def isDot_def)

lemma replace_ok: "list_all okUnit (replaceNonAlnumRuns s)"
  by (induction s rule: replaceNonAlnumRuns.induct) (auto simp: okUnit_def isDot_def)

lemma collapse_ok: "list_all okUnit s \<Longrightarrow> list_all okUnit (collapseDots s)"
proof (induction s rule: collapseDots.induct)
  case 1 then show ?case by simp
next
  case (2 c cs)
  have dot: "okUnit 46" by (simp add: okUnit_def isDot_def)
  show ?case
  proof (cases "isDot c")
    case True
    have "list_all okUnit (dropWhile isDot cs)"
      using 2(3) by (auto simp: list_all_iff dest: set_dropWhileD)
    with 2(1)[OF True] dot True show ?thesis by simp
  next
    case False
    with 2(2)[OF False] 2(3) show ?thesis by simp
  qed
qed

lemma collapse_hd: "s \<noteq> [] \<Longrightarrow> \<not> isDot (hd s) \<Longrightarrow>
    collapseDots s \<noteq> [] \<and> hd (collapseDots s) = hd s"
  by (cases s) auto

lemma collapse_nodd: "noDoubleDot (collapseDots s)"
proof (induction s rule: collapseDots.induct)
  case 1 then show ?case by simp
next
  case (2 c cs)
  show ?case
  proof (cases "isDot c")
    case True
    let ?r = "dropWhile isDot cs"
    from True have eq: "collapseDots (c # cs) = 46 # collapseDots ?r" by simp
    show ?thesis
    proof (cases ?r)
      case Nil show ?thesis unfolding eq Nil by simp
    next
      case (Cons d ds)
      then have nd: "\<not> isDot d" using hd_dropWhile[of isDot cs] by auto
      with Cons have "collapseDots ?r = d # collapseDots ds" by simp
      moreover have "noDoubleDot (collapseDots ?r)" using 2(1)[OF True] .
      ultimately show ?thesis using True nd by simp
    qed
  next
    case False
    with 2(2) have ih: "noDoubleDot (collapseDots cs)" by simp
    from False show ?thesis using ih
      by (cases "collapseDots cs") auto
  qed
qed

lemma nodd_append: "noDoubleDot (xs @ ys) \<Longrightarrow> noDoubleDot xs \<and> noDoubleDot ys"
proof (induction xs rule: noDoubleDot.induct)
  case 1 then show ?case by simp
next
  case (2 c) then show ?case by (cases ys) auto
next
  case (3 c d cs) then show ?case by auto
qed

lemma strip_decomp: "\<exists>pre post. s = pre @ stripDots s @ post"
proof -
  have 1: "s = takeWhile isDot s @ dropWhile isDot s" by simp
  let ?m = "dropWhile isDot s"
  have "rev ?m = takeWhile isDot (rev ?m) @ dropWhile isDot (rev ?m)" by simp
  then have "?m = rev (dropWhile isDot (rev ?m)) @ rev (takeWhile isDot (rev ?m))"
    by (metis rev_append rev_rev_ident)
  then have "s = takeWhile isDot s @ stripDots s @ rev (takeWhile isDot (rev ?m))"
    using 1 by (simp add: stripDots_def)
  then show ?thesis by blast
qed

lemma strip_nodd: "noDoubleDot s \<Longrightarrow> noDoubleDot (stripDots s)"
proof -
  assume a: "noDoubleDot s"
  obtain pre post where "s = pre @ stripDots s @ post" using strip_decomp by blast
  with a have "noDoubleDot (pre @ (stripDots s @ post))" by simp
  then have "noDoubleDot (stripDots s @ post)" using nodd_append by blast
  then show ?thesis using nodd_append by blast
qed

lemma strip_ok: "list_all okUnit s \<Longrightarrow> list_all okUnit (stripDots s)"
proof -
  assume a: "list_all okUnit s"
  obtain pre post where "s = pre @ stripDots s @ post" using strip_decomp by blast
  then have "set (stripDots s) \<subseteq> set s" by (metis Un_upper1 Un_upper2 set_append subset_trans)
  with a show ?thesis by (auto simp: list_all_iff)
qed

lemma strip_ends: "stripDots s \<noteq> [] \<Longrightarrow>
    \<not> isDot (hd (stripDots s)) \<and> \<not> isDot (last (stripDots s))"
proof -
  assume ne: "stripDots s \<noteq> []"
  let ?m = "dropWhile isDot s"
  let ?r = "dropWhile isDot (rev ?m)"
  from ne have r: "?r \<noteq> []" by (simp add: stripDots_def)
  then have m: "?m \<noteq> []" by (metis dropWhile.simps(1) rev_is_Nil_conv)
  have "last (stripDots s) = hd ?r" by (metis last_rev stripDots_def)
  then have l: "\<not> isDot (last (stripDots s))"
    using hd_dropWhile[OF r] by simp
  have "?m = stripDots s @ rev (takeWhile isDot (rev ?m))"
    by (metis rev_append rev_rev_ident stripDots_def takeWhile_dropWhile_id)
  with ne have "hd (stripDots s) = hd ?m" by (metis hd_append2)
  moreover have "\<not> isDot (hd ?m)" by (rule hd_dropWhile[OF m])
  ultimately show ?thesis using l by simp
qed

lemma split_ne: "split sep s \<noteq> []"
  by (induction s) (auto split: list.splits)

lemma split_good:
  "s \<noteq> [] \<Longrightarrow> list_all okUnit s \<Longrightarrow> noDoubleDot s \<Longrightarrow> \<not> isDot (hd s) \<Longrightarrow>
   \<not> isDot (last s) \<Longrightarrow> list_all goodPart (split 46 s)"
proof (induction "length s" arbitrary: s rule: less_induct)
  case less
  from less.prems obtain c cs where s: "s = c # cs" by (cases s) auto
  with less.prems have c: "isAlnumLower c" "c \<noteq> 46" by (auto simp: okUnit_def isDot_def)
  show ?case
  proof (cases cs)
    case Nil
    with s c show ?thesis by (simp add: goodPart_def)
  next
    case (Cons d ds)
    show ?thesis
    proof (cases "isDot d")
      case False
      have "list_all goodPart (split 46 cs)"
        using less.hyps[of cs] less.prems s Cons False by auto
      moreover obtain p ps where "split 46 cs = p # ps"
        using split_ne[of 46 cs] by (cases "split 46 cs") auto
      ultimately show ?thesis using s c by (auto simp: goodPart_def)
    next
      case True
      then have d: "d = 46" by (simp add: isDot_def)
      from less.prems s Cons True have dsne: "ds \<noteq> []" by auto
      then obtain e es where ds: "ds = e # es" by (cases ds) auto
      from less.prems s Cons True ds have "\<not> isDot e" by auto
      then have "list_all goodPart (split 46 ds)"
        using less.hyps[of ds] less.prems s Cons ds dsne by auto
      then show ?thesis using s c Cons d by (simp add: goodPart_def)
    qed
  qed
qed

lemma fixPart_valid: "goodPart p \<Longrightarrow> validSegment (fixPart (i, p))"
  by (cases p) (auto simp: goodPart_def validSegment_def fixPart_def isAlnumLower_def isLower_def)

lemma match_inside: "list_all isAlnumLower cs \<Longrightarrow>
    matchSegments False (cs @ r) = matchSegments False r"
  by (induction cs) (auto simp: isAlnumLower_def isLower_def isDigit_def)

lemma match_segment: "validSegment p \<Longrightarrow> matchSegments True (p @ r) = matchSegments False r"
  by (cases p) (auto simp: validSegment_def match_inside)

lemma match_join_Cons:
  "list_all validSegment (p # ps) \<Longrightarrow> matchSegments True (join 46 (p # ps))"
proof (induction ps arbitrary: p)
  case Nil
  then show ?case using match_segment[of p "[]"] by simp
next
  case (Cons q qs)
  then have "matchSegments True (join 46 (q # qs))" by simp
  then show ?case using Cons.prems match_segment[of p "46 # join 46 (q # qs)"] by simp
qed

lemma match_join: "ps \<noteq> [] \<Longrightarrow> list_all validSegment ps \<Longrightarrow> matchSegments True (join 46 ps)"
  by (cases ps) (auto intro: match_join_Cons simp del: join.simps)

lemma sanitized_good:
  "list_all goodPart (split 46
     (let s = stripDots (collapseDots (replaceNonAlnumRuns t))
      in if s = [] then lit ''app'' else s))"
proof (cases "stripDots (collapseDots (replaceNonAlnumRuns t)) = []")
  case True
  then show ?thesis
    by (simp add: Let_def lit_Nil lit_Cons goodPart_def isAlnumLower_def isLower_def)
next
  case False
  let ?s = "stripDots (collapseDots (replaceNonAlnumRuns t))"
  have "list_all goodPart (split 46 ?s)"
    using False strip_ends[OF False] strip_nodd[OF collapse_nodd]
      strip_ok[OF collapse_ok[OF replace_ok]]
    by (intro split_good) auto
  with False show ?thesis by (simp add: Let_def)
qed

lemma generateAppId_matches: "matchesAppIdPattern (generateAppId ul name)"
proof -
  let ?s = "(let s = stripDots (collapseDots (replaceNonAlnumRuns (toLowerCase ul name)))
      in if s = [] then lit ''app'' else s)"
  let ?fixed = "map fixPart (enumerate 0 (split 46 ?s))"
  have g: "generateAppId ul name = lit ''com.vibecoding.'' @ join 46 ?fixed"
    by (simp add: generateAppId_def Let_def)
  have "list_all goodPart (split 46 ?s)" by (rule sanitized_good)
  then have "list_all validSegment ?fixed"
    by (auto simp: list_all_iff enumerate_eq_zip dest!: set_zip_rightD intro: fixPart_valid)
  moreover have "?fixed \<noteq> []" using split_ne by (simp add: enumerate_eq_zip)
  ultimately have "matchSegments True (join 46 ?fixed)" by (rule match_join[rotated])
  moreover have "length (lit ''com.vibecoding.'') = 15" by (simp add: lit_def)
  ultimately show ?thesis unfolding g matchesAppIdPattern_def by simp
qed

lemma fix_enumerate:
  "list_all goodPart ps \<Longrightarrow>
   map fixPart (enumerate n ps) = map (\<lambda>p. if isLower (hd p) then p else 97 # p) ps"
  by (induction ps arbitrary: n) (auto simp: fixPart_def goodPart_def)

text \<open>
  Claim C1. For every app name (any sequence of code units, the empty one included) and every
  Unicode lower-casing table, the derived identifier matches
  \<open>^com\.vibecoding\.[a-z][a-z0-9]*(\.[a-z][a-z0-9]*)*$\<close>; it is the prefix followed by the
  dot-separated segments of the sanitized name (lower-cased, runs of other units turned into
  dots, dots collapsed and stripped, \<open>app\<close> when nothing is left), each segment that does not
  start with a letter prefixed with \<open>a\<close>. The four examples of the specification evaluate
  as stated; the fourth needs the table to leave the four Chinese characters as they are.
\<close>

theorem generateAppId_wellformed:
  "matchesAppIdPattern (generateAppId ul X) \<and>
   generateAppId ul X = lit ''com.vibecoding.'' @ join 46
     (map (\<lambda>p. if isLower (hd p) then p else 97 # p)
        (split 46 (let s = stripDots (collapseDots (replaceNonAlnumRuns (toLowerCase ul X)))
                   in if s = [] then lit ''app'' else s))) \<and>
   generateAppId ul (lit ''123App'') = lit ''com.vibecoding.a123app'' \<and>
   generateAppId ul [] = lit ''com.vibecoding.app'' \<and>
   generateAppId ul (lit ''My---App___Test'') = lit ''com.vibecoding.my.app.test'' \<and>
   ((\<forall>prev rest. \<forall>c \<in> {25105, 30340, 24212, 29992}. ul prev c rest = [c]) \<longrightarrow>
      generateAppId ul [25105, 30340, 24212, 29992] = lit ''com.vibecoding.app'')"
proof (intro conjI impI)
  show "matchesAppIdPattern (generateAppId ul X)" by (rule generateAppId_matches)
  show "generateAppId ul X = lit ''com.vibecoding.'' @ join 46
     (map (\<lambda>p. if isLower (hd p) then p else 97 # p)
        (split 46 (let s = stripDots (collapseDots (replaceNonAlnumRuns (toLowerCase ul X)))
                   in if s = [] then lit ''app'' else s)))"
    using fix_enumerate[OF sanitized_good, of 0 "toLowerCase ul X"]
    by (simp add: generateAppId_def Let_def)
  show "generateAppId ul (lit ''123App'') = lit ''com.vibecoding.a123app''"
    by (simp add: appid_eval)
  show "generateAppId ul [] = lit ''com.vibecoding.app''"
    by (simp add: appid_eval)
  show "generateAppId ul (lit ''My---App___Test'') = lit ''com.vibecoding.my.app.test''"
    by (simp add: appid_eval)
  assume "\<forall>prev rest. \<forall>c \<in> {25105, 30340, 24212, 29992}. ul prev c rest = [c]"
  then show "generateAppId ul [25105, 30340, 24212, 29992] = lit ''com.vibecoding.app''"
    by (simp add: appid_eval)
qed

theorem generateAppId_wellformed_witness:
  "generateAppId caselessTable [25105, 30340, 24212, 29992] = lit ''com.vibecoding.app'' \<and>
   matchesAppIdPattern (generateAppId caselessTable [25105, 30340, 24212, 29992])"
proof -
  have h: "\<forall>prev rest. \<forall>c \<in> {25105, 30340, 24212, 29992}. caselessTable prev c rest = [c]"
    by (simp add: caselessTable_def)
  note t = generateAppId_wellformed[of caselessTable "[25105, 30340, 24212, 29992]"]
  from t have m: "matchesAppIdPattern (generateAppId caselessTable [25105, 30340, 24212, 29992])"
    by (rule conjunct1)
  from t h have e: "generateAppId caselessTable [25105, 30340, 24212, 29992] = lit ''com.vibecoding.app''"
    by blast
  from e m show ?thesis by blast
qed

section \<open>The app identifier of a zip build\<close>

lemmas route_eval = zipRoute_def initialForm_def trim_def isWhiteSpace_def endsWith_def
  truthy_def zipUpload_def

text \<open>
  A zip upload named MyApp whose \<open>appId\<close> field is blank is admitted with the identifier
  \<open>com.example.reactapp\<close>, not with the identifier derived from its name.
\<close>

theorem zip_appId_not_derived:
  "appNameOf (zipRoute caselessTable plainBaseName (lit ''/tmp/uploads'') sampleConfig sampleId 0 zipUpload)
     = Some (lit ''MyApp'') \<and>
   appIdOf (zipRoute caselessTable plainBaseName (lit ''/tmp/uploads'') sampleConfig sampleId 0 zipUpload)
     = Some (lit ''com.example.reactapp'') \<and>
   generateAppId caselessTable (lit ''MyApp'') = lit ''com.vibecoding.myapp'' \<and>
   lit ''com.example.reactapp'' \<noteq> lit ''com.vibecoding.myapp''"
  by (simp add: route_eval appIdOf_def appNameOf_def appid_eval)

lemma parse_appId_blank:
  "\<forall>v. FieldPart (lit ''appId'') v \<in> set parts \<longrightarrow> trim v = [] \<Longrightarrow>
   fs_appId st = None \<Longrightarrow> fs_appId (foldl (parsePart ul) st parts) = None"
proof (induction parts arbitrary: st)
  case Nil then show ?case by simp
next
  case (Cons p ps)
  have "fs_appId (parsePart ul st p) = None"
  proof (cases p)
    case (FilePart f n b) with Cons.prems show ?thesis by (simp add: Let_def)
  next
    case (FieldPart f v) with Cons.prems show ?thesis by (auto simp: Let_def)
  qed
  with Cons show ?case by simp
qed

lemma default_not_derived: "generateAppId ul name \<noteq> lit ''com.example.reactapp''"
  by (simp add: generateAppId_def Let_def lit_Nil lit_Cons)

text \<open>
  Claim C7 (amended). Every zip build admitted without an \<open>appId\<close> field, or with blank
  ones only, carries the fixed identifier \<open>com.example.reactapp\<close>, whatever its app name;
  the build runs with that identifier, which is never the one derived from the app name.
\<close>

theorem zip_appId_default:
  assumes "\<forall>v. FieldPart (lit ''appId'') v \<in> set parts \<longrightarrow> trim v = []"
    and "zipRoute ul parseName uploadsDir config tid now parts = Send d"
  shows "appId d = Some (lit ''com.example.reactapp'') \<and>
         reactAppId (appId d) = lit ''com.example.reactapp'' \<and>
         reactAppId (appId d) \<noteq> generateAppId ul' (appName d)"
proof -
  have "fs_appId (foldl (parsePart ul) initialForm parts) = None"
    using assms(1) by (rule parse_appId_blank) (simp add: initialForm_def)
  with assms(2) have "appId d = Some (lit ''com.example.reactapp'')"
    by (auto simp: zipRoute_def Let_def truthy_def split: option.splits if_splits)
  then show ?thesis using default_not_derived[of ul' "appName d"]
    by (simp add: reactAppId_def)
qed

theorem zip_appId_default_witness:
  "appIdOf (zipRoute caselessTable plainBaseName (lit ''/tmp/uploads'') sampleConfig sampleId 0 zipUpload)
     = Some (lit ''com.example.reactapp'')"
proof -
  have h: "\<forall>v. FieldPart (lit ''appId'') v \<in> set zipUpload \<longrightarrow> trim v = []"
    by (simp add: zipUpload_def trim_def isWhiteSpace_def lit_Nil lit_Cons)
  have "\<exists>d. zipRoute caselessTable plainBaseName (lit ''/tmp/uploads'') sampleConfig sampleId 0
      zipUpload = Send d"
    by (simp add: route_eval appid_eval)
  then obtain d where d: "zipRoute caselessTable plainBaseName (lit ''/tmp/uploads'') sampleConfig
      sampleId 0 zipUpload = Send d" by blast
  from zip_appId_default[OF h d] have "appId d = Some (lit ''com.example.reactapp'')" by simp
  with d show ?thesis by (simp add: appIdOf_def)
qed

section \<open>Heartbeat ticks\<close>


lemmas hb_eval = installHeartbeat_def createProgressHeartbeat_def oneMinute_def tick_def

text \<open>
  Claim C8 at the band 25 to 38 of the dependency install: the width is 13, the increment is
  \<open>max 1 (13 div 10) = 1\<close>, and a subcommand that runs for twelve intervals gets twelve
  ticks, 26 up to 37, although the source comments the increment with "Max 10 increments".
\<close>

theorem heartbeat_twelve_ticks:
  "map snd (hbRun installHeartbeat oneMinute) = [26, 27, 28, 29, 30, 31, 32, 33, 34, 35, 36, 37] \<and>
   length (hbRun installHeartbeat oneMinute) = 12"
  by (simp add: hb_eval)

text \<open>What does hold: ticks stay inside the band.\<close>

lemma tick_band:
  "tick h = (h', out) \<Longrightarrow> 0 < hb_increment h \<Longrightarrow> lo \<le> hb_currentPercent h \<Longrightarrow>
   hb_increment h' = hb_increment h \<and> hb_endPercent h' = hb_endPercent h \<and>
   hb_live h' = hb_live h \<and> hb_timer h' = hb_timer h \<and>
   lo \<le> hb_currentPercent h' \<and>
   (\<forall>p \<in> set out. lo < snd p \<and> snd p < hb_endPercent h)"
  by (auto simp: tick_def split: if_splits)

lemma ticks_band:
  "ticks n h = (h', out) \<Longrightarrow> 0 < hb_increment h \<Longrightarrow> lo \<le> hb_currentPercent h \<Longrightarrow>
   hb_increment h' = hb_increment h \<and> hb_endPercent h' = hb_endPercent h \<and>
   hb_live h' = hb_live h \<and> hb_timer h' = hb_timer h \<and>
   lo \<le> hb_currentPercent h' \<and>
   (\<forall>p \<in> set out. lo < snd p \<and> snd p < hb_endPercent h)"
proof (induction n arbitrary: h h' out)
  case 0 then show ?case by simp
next
  case (Suc n)
  obtain h1 o1 where t: "tick h = (h1, o1)" by (cases "tick h")
  obtain h2 o2 where r: "ticks n h1 = (h2, o2)" by (cases "ticks n h1")
  from Suc.prems(1) t r have eq: "h' = h2" "out = o1 @ o2" by auto
  note a = tick_band[OF t Suc.prems(2) Suc.prems(3)]
  from a Suc.prems(2) have "0 < hb_increment h1" "lo \<le> hb_currentPercent h1" by auto
  note b = Suc.IH[OF r this]
  from a b eq show ?case by auto
qed

lemma hbRun_band:
  "0 < hb_increment h \<Longrightarrow> lo \<le> hb_currentPercent h \<Longrightarrow>
   \<forall>p \<in> set (hbRun h es). lo < snd p \<and> snd p < hb_endPercent h"
proof (induction es arbitrary: h)
  case Nil then show ?case by simp
next
  case (Cons e es)
  obtain h1 o1 where s: "hbStep h e = (h1, o1)" by (cases "hbStep h e")
  have k: "hb_increment h1 = hb_increment h \<and> hb_endPercent h1 = hb_endPercent h \<and>
           lo \<le> hb_currentPercent h1 \<and> (\<forall>p \<in> set o1. lo < snd p \<and> snd p < hb_endPercent h)"
  proof (cases e)
    case Start with s Cons.prems show ?thesis by (auto split: if_splits)
  next
    case Stop with s Cons.prems show ?thesis by (auto split: if_splits)
  next
    case Fire
    with s have "ticks (hb_live h) h = (h1, o1)" by simp
    from ticks_band[OF this Cons.prems] show ?thesis by simp
  qed
  then have "\<forall>p \<in> set (hbRun h1 es). lo < snd p \<and> snd p < hb_endPercent h1"
    using Cons.IH[of h1] Cons.prems by simp
  with k s show ?case by auto
qed

lemma heartbeat_band:
  "\<forall>p \<in> set (hbRun (createProgressHeartbeat cb msg startPercent endPercent) es).
     startPercent < snd p \<and> snd p < endPercent"
  using hbRun_band[of "createProgressHeartbeat cb msg startPercent endPercent" startPercent es]
  by (simp add: createProgressHeartbeat_def)

section \<open>Paths and files\<close>



lemmas path_eval = pathJoin_def pathNormalize_def Let_def lit_Nil lit_Cons

lemma builtApk_path: "builtApk = lit ''/builds/MyApp--V1StGXR8_Z5j.apk''"
  by (simp add: builtApk_def apkFileName_def truthy_def sampleId_def path_eval)

lemma sample_paths:
  "pathJoin (lit ''/tmp/uploads'') sampleId = lit ''/tmp/uploads/V1StGXR8_Z5j''"
  "pathJoin (lit ''/builds'') (lit ''MyApp'') = lit ''/builds/MyApp''"
  by (simp_all add: sampleId_def path_eval)

lemma map_of_filter_key:
  "map_of (filter (\<lambda>e. R (fst e)) fs) k = (if R k then map_of fs k else None)"
  by (induction fs) auto

lemma statPath_fsRemove:
  "statPath (fsRemove fs d) p =
     (if noTrail p = noTrail d \<or> prefix (noTrail d @ [47]) (noTrail p) then None
      else statPath fs p)"
proof -
  have m: "map_of (fsRemove fs d) (noTrail p) =
      (if \<not> (noTrail p = noTrail d \<or> prefix (noTrail d @ [47]) (noTrail p))
       then map_of fs (noTrail p) else None)"
    unfolding fsRemove_def
    by (rule map_of_filter_key[of "\<lambda>k. \<not> (k = noTrail d \<or> prefix (noTrail d @ [47]) k)"])
  show ?thesis
  proof (cases "noTrail p = noTrail d \<or> prefix (noTrail d @ [47]) (noTrail p)")
    case True
    with m have "map_of (fsRemove fs d) (noTrail p) = None" by simp
    with True show ?thesis by (simp add: statPath_def)
  next
    case False
    with m have "map_of (fsRemove fs d) (noTrail p) = map_of fs (noTrail p)" by simp
    with False show ?thesis by (simp add: statPath_def)
  qed
qed

lemma fsRemove_gone: "\<not> pathExists (fsRemove fs p) p"
  by (simp add: pathExists_def statPath_fsRemove)

lemma fsRemove_keeps_gone: "\<not> pathExists fs p \<Longrightarrow> \<not> pathExists (fsRemove fs d) p"
  by (simp add: pathExists_def statPath_fsRemove)

section \<open>The file name of a download\<close>


lemmas download_eval = downloadRoute_def getJobStatus_def getJob_def noStatus_def hasApk_def
  builtJob_def completedJob_def sampleJob_def sampleId_def builtApk_path
  truthy_def pathExists_def statPath_def noTrail_def userFilename_def basename_def
  taskIdMatch_def isAlnum_def isLineTerminator_def asciiFilename_def escapePoint_def
  uriUnreserved_def invalidHeaderChar_def dispositionOf_def Let_def lit_Nil lit_Cons

text \<open>
  Claim C6 at the task id \<open>V1StGXR8_Z5j\<close>, twelve URL-safe characters with an underscore:
  the pattern \<open>[a-zA-Z0-9]+\<close> does not cover the id, the match fails, and the file is offered
  under its internal name, suffix included.
\<close>

theorem download_keeps_task_suffix:
  "userFilename builtApk = lit ''MyApp--V1StGXR8_Z5j.apk'' \<and>
   userFilename builtApk \<noteq> lit ''MyApp.apk'' \<and>
   dispositionOf (downloadRoute [(builtApk, File 1024)] [builtJob] sampleId) =
     Some (lit ''attachment; filename=\"MyApp--V1StGXR8_Z5j.apk\"; filename*=UTF-8''
           @ [39, 39] @ lit ''MyApp--V1StGXR8_Z5j.apk'')"
  by (simp add: download_eval)

text \<open>With a task id of letters and digits only, the suffix is removed.\<close>

lemma taskIdMatch_alnum:
  assumes "t \<noteq> []" and "list_all isAlnum t" and "g \<noteq> []" and "\<not> list_ex isLineTerminator g"
  shows "taskIdMatch (g @ lit ''--'' @ t @ lit ''.apk'') = Some g"
proof -
  let ?r1 = "rev t @ [45, 45] @ rev g"
  have r: "rev (g @ lit ''--'' @ t @ lit ''.apk'') = rev (lit ''.apk'') @ ?r1"
    by (simp add: lit_Nil lit_Cons)
  have d: "drop 4 (rev (lit ''.apk'') @ ?r1) = ?r1" by (simp add: lit_Nil lit_Cons)
  have na: "\<not> isAlnum 45" by (simp add: isAlnum_def)
  have tw: "takeWhile isAlnum ?r1 = rev t"
    using assms(2) na by (simp add: list_all_iff takeWhile_tail)
  have dw: "dropWhile isAlnum ?r1 = [45, 45] @ rev g"
    using assms(2) na by (simp add: list_all_iff dropWhile_append3)
  show ?thesis
    unfolding taskIdMatch_def r Let_def d tw dw using assms by simp
qed

section \<open>What DELETE leaves behind\<close>


lemmas delete_eval = deleteRoute_def removeJob_def cleanupTask_def finalConfig_def fsRemove_def
  getJob_def builtJob_def completedJob_def sampleJob_def sampleData_def sampleId_def
  builtApk_path builtFiles_def sampleStorage_def sampleConfig_def path_eval
  pathExists_def statPath_def noTrail_def

text \<open>
  Claim C3 at a completed zip build: DELETE removes the job and the uploads subdirectory of the
  task, but \<open>cleanupTask\<close> removes the path \<open>buildsDir/appName\<close>, which is not the artifact
  \<open>buildsDir/appName--taskId.apk\<close>; the artifact is still there afterwards.
\<close>

theorem delete_leaves_artifact:
  "deleteRoute sampleStorage sampleConfig builtFiles [builtJob] sampleId =
     (Send (lit ''Task V1StGXR8_Z5j has been deleted''), [(builtApk, File 1024)], []) \<and>
   builtApk = lit ''/builds/MyApp--V1StGXR8_Z5j.apk'' \<and>
   pathExists [(builtApk, File 1024)] builtApk"
  by (simp add: delete_eval)

text \<open>What does hold: an active job is refused and nothing changes.\<close>

lemma delete_active_unchanged:
  "getJob q tid = Some j \<Longrightarrow> job_state j = Active \<Longrightarrow>
   \<exists>e m. deleteRoute defaultConfig config fs q tid = (Fail 400 e m, fs, q)"
  by (simp add: deleteRoute_def)

lemma getJob_filter: "getJob (filter (\<lambda>j. job_id j \<noteq> tid) q) tid = None"
  by (induction q) (auto simp: getJob_def)

text \<open>A job in any other state is removed, and so is its uploads subdirectory.\<close>

lemma delete_removes_job_and_uploads:
  assumes "getJob q tid = Some j" and "job_state j \<noteq> Active"
    and "deleteRoute defaultConfig config fs q tid = (r, fs', q')"
  shows "(\<exists>m. r = Send m) \<and> getJob q' tid = None \<and>
         \<not> pathExists fs' (pathJoin (st_uploadsDir defaultConfig) tid)"
proof -
  let ?c = "\<lparr> p_buildsDir = Some (buildsDir config), p_uploadsDir = None \<rparr>"
  from assms have r: "r = Send (lit ''Task '' @ tid @ lit '' has been deleted'')"
    and q: "q' = filter (\<lambda>j. job_id j \<noteq> tid) q"
    and f: "fs' = cleanupTask defaultConfig tid (appName (job_data j)) ?c fs"
    by (auto simp: deleteRoute_def removeJob_def Let_def)
  let ?u = "pathJoin (st_uploadsDir defaultConfig) tid"
  let ?fs1 = "if pathExists fs ?u then fsRemove fs ?u else fs"
  have g: "\<not> pathExists ?fs1 ?u" by (simp add: fsRemove_gone)
  have "fs' = (let buildDir = pathJoin (buildsDir config) (appName (job_data j))
               in if pathExists ?fs1 buildDir then fsRemove ?fs1 buildDir else ?fs1)"
    unfolding f cleanupTask_def Let_def by (simp add: finalConfig_def)
  then have "\<not> pathExists fs' ?u"
    using g fsRemove_keeps_gone[OF g] by (simp add: Let_def split: if_splits)
  with r q show ?thesis by (simp add: getJob_filter)
qed

section \<open>When a page is made offline\<close>

text \<open>Folding to upper case identifies exactly the two forms of an ASCII letter.\<close>

lemma canon_same: "canon a = canon b \<longleftrightarrow> sameLetter a b"
  by (auto simp: canon_def sameLetter_def)

lemma same_canon_list: "list_all2 sameLetter m p \<longleftrightarrow> map canon m = map canon p"
proof (induction m arbitrary: p)
  case Nil then show ?case by auto
next
  case (Cons x m)
  then show ?case by (cases p) (auto simp: canon_same)
qed

lemma carries_alt:
  "carries h sig \<longleftrightarrow> (\<exists>a m b. h = a @ m @ b \<and> map canon m = map canon sig)"
  by (simp add: carries_def same_canon_list)

lemma ciPrefix_iff:
  "ciPrefix p s \<longleftrightarrow> (\<exists>m b. s = m @ b \<and> map canon m = map canon p)"
proof (induction p s rule: ciPrefix.induct)
  case (1 s) then show ?case by simp
next
  case (2 p ps) then show ?case by simp
next
  case (3 p ps c cs)
  show ?case
  proof
    assume "ciPrefix (p # ps) (c # cs)"
    then have h: "canon p = canon c" and "ciPrefix ps cs" by simp_all
    with 3 obtain m b where "cs = m @ b" "map canon m = map canon ps" by blast
    with h have "c # cs = (c # m) @ b \<and> map canon (c # m) = map canon (p # ps)" by simp
    then show "\<exists>m b. c # cs = m @ b \<and> map canon m = map canon (p # ps)" by blast
  next
    assume "\<exists>m b. c # cs = m @ b \<and> map canon m = map canon (p # ps)"
    then obtain m b where mb: "c # cs = m @ b" "map canon m = map canon (p # ps)" by blast
    then obtain m' where m: "m = c # m'" by (cases m) auto
    with mb have "cs = m' @ b" "map canon m' = map canon ps" "canon c = canon p" by auto
    with 3 show "ciPrefix (p # ps) (c # cs)" by auto
  qed
qed

lemma testCI_carries: "testCI pat s \<longleftrightarrow> carries s pat"
proof (induction s)
  case Nil
  show ?case by (auto simp: carries_alt)
next
  case (Cons c cs)
  show ?case
  proof
    assume "testCI pat (c # cs)"
    then consider "ciPrefix pat (c # cs)" | "testCI pat cs" by auto
    then show "carries (c # cs) pat"
    proof cases
      case 1
      then obtain m b where "c # cs = [] @ m @ b" "map canon m = map canon pat"
        unfolding ciPrefix_iff by auto
      then show ?thesis unfolding carries_alt by blast
    next
      case 2
      with Cons obtain a m b where "cs = a @ m @ b" "map canon m = map canon pat"
        unfolding carries_alt by blast
      then have "c # cs = (c # a) @ m @ b \<and> map canon m = map canon pat" by simp
      then show ?thesis unfolding carries_alt by blast
    qed
  next
    assume "carries (c # cs) pat"
    then obtain a m b where amb: "c # cs = a @ m @ b" "map canon m = map canon pat"
      unfolding carries_alt by blast
    show "testCI pat (c # cs)"
    proof (cases a)
      case Nil
      with amb have "ciPrefix pat (c # cs)" unfolding ciPrefix_iff by auto
      then show ?thesis by simp
    next
      case (Cons x a')
      with amb have "cs = a' @ m @ b" by simp
      with amb(2) have "carries cs pat" unfolding carries_alt by blast
      with Cons.IH show ?thesis by simp
    qed
  qed
qed

lemma anyPattern_iff: "anyPattern ps h \<longleftrightarrow> (\<exists>p \<in> set ps. carries h p)"
  by (induction ps) (auto simp: testCI_carries)

lemma carries_piece: "carries t sig \<Longrightarrow> carries (a @ t @ b) sig"
proof -
  assume "carries t sig"
  then obtain x m y where "t = x @ m @ y" "list_all2 sameLetter m sig"
    unfolding carries_def by blast
  then have "a @ t @ b = (a @ x) @ m @ (y @ b) \<and> list_all2 sameLetter m sig" by simp
  then show ?thesis unfolding carries_def by blast
qed

lemma needsOfflineify_iff:
  "needsOfflineify h =
     (carries h (lit ''cdn.tailwindcss.com'') \<or> carries h (lit ''unpkg.com'') \<or>
      carries h (lit ''fonts.googleapis.com'') \<or> carries h (lit ''@babel/standalone'') \<or>
      carries h (lit ''canvas-confetti'') \<or> carries h (lit ''cdnjs.cloudflare.com'') \<or>
      carries h (lit ''text/babel''))"
  by (simp add: needsOfflineify_def anyPattern_iff testCI_carries CDN_PATTERNS_def
      BABEL_SCRIPT_PATTERN_def del: anyPattern.simps)

lemma babelScriptTag_carries: "babelScriptTag h \<Longrightarrow> carries h (lit ''text/babel'')"
  unfolding babelScriptTag_def using carries_piece by blast

lemma googleFontsImport_carries:
  "googleFontsImport h \<Longrightarrow> carries h (lit ''fonts.googleapis.com'')"
proof -
  assume "googleFontsImport h"
  then obtain x y where h: "h = x @ y" and c: "carries y (lit ''fonts.googleapis.com'')"
    unfolding googleFontsImport_def by blast
  from carries_piece[OF c, of x "[]"] h show ?thesis by simp
qed

lemmas offline_eval = needsOfflineify_def CDN_PATTERNS_def BABEL_SCRIPT_PATTERN_def canon_def
  lit_Nil lit_Cons

text \<open>
  A page that only mentions the library canvas-confetti triggers the offline step, although it
  has no CDN host, no script tag of type \<open>text/babel\<close> and no import of Google Fonts.
\<close>

theorem needsOfflineify_library_name:
  "needsOfflineify confettiPage \<and> \<not> specSignature confettiPage"
proof -
  have t: "needsOfflineify confettiPage" by (simp add: confettiPage_def offline_eval)
  have n: "\<not> carries confettiPage (lit ''cdn.tailwindcss.com'')"
    "\<not> carries confettiPage (lit ''unpkg.com'')"
    "\<not> carries confettiPage (lit ''fonts.googleapis.com'')"
    "\<not> carries confettiPage (lit ''cdnjs.cloudflare.com'')"
    "\<not> carries confettiPage (lit ''text/babel'')"
    unfolding testCI_carries[symmetric] by (simp_all add: confettiPage_def offline_eval)
  from n babelScriptTag_carries googleFontsImport_carries
  have "\<not> specSignature confettiPage" unfolding specSignature_def cdnHost_def by blast
  with t show ?thesis by simp
qed

text \<open>
  Claim C5 (amended). \<open>needsOfflineify\<close> is true exactly when the page has somewhere in
  its text, in any case of the ASCII letters, one of the seven patterns the code declares:
  cdn.tailwindcss.com, unpkg.com, fonts.googleapis.com, @babel/standalone, canvas-confetti,
  cdnjs.cloudflare.com or text/babel. Every page with one of the four CDN hosts, with a script
  tag of type \<open>text/babel\<close> or with an import of Google Fonts is among them; so is the
  Tailwind CDN written in capitals.
\<close>

theorem needsOfflineify_signatures:
  "needsOfflineify H =
     (carries H (lit ''cdn.tailwindcss.com'') \<or> carries H (lit ''unpkg.com'') \<or>
      carries H (lit ''fonts.googleapis.com'') \<or> carries H (lit ''@babel/standalone'') \<or>
      carries H (lit ''canvas-confetti'') \<or> carries H (lit ''cdnjs.cloudflare.com'') \<or>
      carries H (lit ''text/babel'')) \<and>
   (specSignature H \<longrightarrow> needsOfflineify H) \<and>
   needsOfflineify (lit ''<script src=\"HTTPS://CDN.TAILWINDCSS.COM\"></script>'')"
proof (intro conjI impI)
  show "needsOfflineify H =
     (carries H (lit ''cdn.tailwindcss.com'') \<or> carries H (lit ''unpkg.com'') \<or>
      carries H (lit ''fonts.googleapis.com'') \<or> carries H (lit ''@babel/standalone'') \<or>
      carries H (lit ''canvas-confetti'') \<or> carries H (lit ''cdnjs.cloudflare.com'') \<or>
      carries H (lit ''text/babel''))"
    by (rule needsOfflineify_iff)
  show "needsOfflineify (lit ''<script src=\"HTTPS://CDN.TAILWINDCSS.COM\"></script>'')"
    by (simp add: offline_eval)
  assume "specSignature H"
  then show "needsOfflineify H"
    unfolding needsOfflineify_iff specSignature_def cdnHost_def
    using babelScriptTag_carries googleFontsImport_carries by blast
qed

theorem needsOfflineify_signatures_witness:
  "specSignature babelPage \<and> needsOfflineify babelPage"
proof -
  let ?t = "lit ''<script type=\"text/babel\"''"
  have 1: "babelPage = [] @ ?t @ lit ''>const App = 1;</script>''"
    by (simp add: babelPage_def lit_Nil lit_Cons)
  have 2: "62 \<notin> set ?t" by (simp add: lit_Nil lit_Cons)
  have 3: "list_all2 sameLetter (take 7 ?t) (lit ''<script'')"
    by (simp add: lit_Nil lit_Cons sameLetter_def)
  have 4: "carries ?t (lit ''text/babel'')"
    unfolding testCI_carries[symmetric] by (simp add: canon_def lit_Nil lit_Cons)
  from 1 2 3 4 have "babelScriptTag babelPage" unfolding babelScriptTag_def by blast
  then have s: "specSignature babelPage" by (simp add: specSignature_def)
  with needsOfflineify_signatures[of babelPage] show ?thesis by blast
qed

section \<open>Patching the page once and twice\<close>

subsection \<open>Occurrences around a unit the pattern does not have\<close>


lemma prefix_mid: "d \<notin> set m \<Longrightarrow> prefix m (X @ d # Y) \<longleftrightarrow> prefix m X"
proof
  assume d: "d \<notin> set m" and "prefix m (X @ d # Y)"
  then consider "prefix m X" | us where "m = X @ us" "prefix us (d # Y)"
    unfolding prefix_append by blast
  then show "prefix m X"
  proof cases
    case 1 then show ?thesis .
  next
    case 2
    with d have "us = []" by (cases us) auto
    with 2 show ?thesis by simp
  qed
next
  assume "prefix m X" then show "prefix m (X @ d # Y)" by (simp add: prefix_append)
qed

lemma count_split:
  "m \<noteq> [] \<Longrightarrow> d \<notin> set m \<Longrightarrow> countOcc m (X @ d # Y) = countOcc m X + countOcc m Y"
proof (induction X)
  case Nil
  then show ?case by (cases m) auto
next
  case (Cons c X)
  have "prefix m (c # X @ d # Y) \<longleftrightarrow> prefix m (c # X)"
    using prefix_mid[OF Cons.prems(2), of "c # X" Y] by simp
  with Cons show ?case by simp
qed

lemma count_skip:
  "m \<noteq> [] \<Longrightarrow> hd m \<notin> set p \<Longrightarrow> countOcc m (p @ Y) = countOcc m Y"
proof (induction p)
  case Nil then show ?case by simp
next
  case (Cons c p)
  then have "\<not> prefix m (c # p @ Y)" by (cases m) auto
  with Cons show ?case by simp
qed

lemma includes_count: "m \<noteq> [] \<Longrightarrow> includesStr s m \<longleftrightarrow> 0 < countOcc m s"
  by (induction s) auto

lemma inc_skip:
  "m \<noteq> [] \<Longrightarrow> hd m \<notin> set p \<Longrightarrow> includesStr (p @ Y) m \<longleftrightarrow> includesStr Y m"
proof (induction p)
  case Nil then show ?case by simp
next
  case (Cons c p)
  then have "\<not> prefix m (c # p @ Y)" by (cases m) auto
  with Cons show ?case by simp
qed

lemma inc_split_first:
  "d \<notin> set m' \<Longrightarrow>
   includesStr (X @ d # Y) (d # m') \<longleftrightarrow>
     includesStr X (d # m') \<or> prefix m' Y \<or> includesStr Y (d # m')"
proof (induction X)
  case Nil then show ?case by simp
next
  case (Cons c X)
  have "prefix (d # m') (c # X @ d # Y) \<longleftrightarrow> prefix (d # m') (c # X)"
    using prefix_mid[OF Cons.prems, of X Y] by simp
  with Cons show ?case by auto
qed

lemma prefix_last:
  assumes "e \<notin> set m''"
  shows "prefix (m'' @ [e]) (W @ e # Y) \<longleftrightarrow> prefix (m'' @ [e]) (W @ [e])"
proof
  assume "prefix (m'' @ [e]) (W @ e # Y)"
  then consider "prefix (m'' @ [e]) W" | us where "m'' @ [e] = W @ us" "prefix us (e # Y)"
    unfolding prefix_append by blast
  then show "prefix (m'' @ [e]) (W @ [e])"
  proof cases
    case 1 then show ?thesis by (simp add: prefix_append)
  next
    case 2
    show ?thesis
    proof (cases us)
      case Nil with 2 show ?thesis by simp
    next
      case (Cons u us')
      with 2 have u: "u = e" by simp
      with 2 Cons have eq: "m'' @ [e] = W @ e # us'" by simp
      have "us' = []"
      proof (rule ccontr)
        assume "us' \<noteq> []"
        then have "butlast (W @ e # us') = W @ e # butlast us'" by (simp add: butlast_append)
        with eq have "m'' = W @ e # butlast us'" by (metis butlast_snoc)
        with assms show False by simp
      qed
      with eq show ?thesis by simp
    qed
  qed
next
  assume "prefix (m'' @ [e]) (W @ [e])"
  then have "prefix (m'' @ [e]) ((W @ [e]) @ Y)" using prefix_append by blast
  then show "prefix (m'' @ [e]) (W @ e # Y)" by simp
qed

lemma inc_split_last:
  "e \<notin> set m'' \<Longrightarrow>
   includesStr (X @ e # Y) (m'' @ [e]) \<longleftrightarrow>
     includesStr (X @ [e]) (m'' @ [e]) \<or> includesStr Y (m'' @ [e])"
proof (induction X)
  case Nil
  have "prefix (m'' @ [e]) ([] @ e # Y) \<longleftrightarrow> prefix (m'' @ [e]) ([] @ [e])"
    by (rule prefix_last[OF Nil])
  then show ?case by auto
next
  case (Cons c X)
  have "prefix (m'' @ [e]) ((c # X) @ e # Y) \<longleftrightarrow> prefix (m'' @ [e]) ((c # X) @ [e])"
    by (rule prefix_last[OF Cons.prems])
  with Cons show ?case by auto
qed

subsection \<open>The match of the head tag\<close>


lemma canon_lt: "canon c = 60 \<longleftrightarrow> c = 60"
  by (auto simp: canon_def)

lemma canon_letter:
  "canon x = canon 104 \<Longrightarrow> x \<in> headLetters"
  "canon x = canon 101 \<Longrightarrow> x \<in> headLetters"
  "canon x = canon 97 \<Longrightarrow> x \<in> headLetters"
  "canon x = canon 100 \<Longrightarrow> x \<in> headLetters"
  by (auto simp: canon_def headLetters_def split: if_splits)

lemma ciHead:
  assumes "ciPrefix (lit ''<head'') s"
  shows "\<exists>t r. s = 60 # t @ r \<and> length t = 4 \<and> set t \<subseteq> headLetters"
proof -
  from assms obtain x0 s1 where s: "s = x0 # s1" by (cases s) (auto simp: lit_Nil lit_Cons)
  with assms obtain x1 s2 where s1: "s1 = x1 # s2" by (cases s1) (auto simp: lit_Nil lit_Cons)
  with assms s obtain x2 s3 where s2: "s2 = x2 # s3" by (cases s2) (auto simp: lit_Nil lit_Cons)
  with assms s s1 obtain x3 s4 where s3: "s3 = x3 # s4"
    by (cases s3) (auto simp: lit_Nil lit_Cons)
  with assms s s1 s2 obtain x4 r where s4: "s4 = x4 # r"
    by (cases s4) (auto simp: lit_Nil lit_Cons)
  from assms s s1 s2 s3 s4 have c: "canon 60 = canon x0" "canon 104 = canon x1"
    "canon 101 = canon x2" "canon 97 = canon x3" "canon 100 = canon x4"
    by (simp_all add: lit_Nil lit_Cons)
  from c(1) have x0: "x0 = 60" by (auto simp: canon_def split: if_splits)
  from c canon_letter[of x1] canon_letter[of x2] canon_letter[of x3] canon_letter[of x4]
  have "set [x1, x2, x3, x4] \<subseteq> headLetters" by simp
  with s s1 s2 s3 s4 x0 have "s = 60 # [x1, x2, x3, x4] @ r \<and> length [x1, x2, x3, x4] = 4
      \<and> set [x1, x2, x3, x4] \<subseteq> headLetters" by simp
  then show ?thesis by blast
qed

lemma split_gt:
  "62 \<in> set r \<Longrightarrow>
   r = takeWhile (\<lambda>x. x \<noteq> 62) r @ 62 # tl (dropWhile (\<lambda>x. x \<noteq> 62) r)"
proof -
  assume a: "62 \<in> set r"
  then have "dropWhile (\<lambda>x. x \<noteq> 62) r \<noteq> []" by simp
  moreover from this have "hd (dropWhile (\<lambda>x. x \<noteq> 62) r) = 62"
    using hd_dropWhile[of "\<lambda>x. x \<noteq> 62" r] by simp
  ultimately have "dropWhile (\<lambda>x. x \<noteq> 62) r = 62 # tl (dropWhile (\<lambda>x. x \<noteq> 62) r)"
    by (metis list.collapse)
  then show ?thesis by (metis takeWhile_dropWhile_id)
qed

lemma findHead_SomeD:
  "findHead s = Some (a, g, b) \<Longrightarrow>
   \<exists>t. s = a @ 60 # t @ g @ 62 # b \<and> length t = 4 \<and> set t \<subseteq> headLetters \<and> 62 \<notin> set g"
proof (induction s arbitrary: a)
  case Nil then show ?case by simp
next
  case (Cons c cs)
  show ?case
  proof (cases "ciPrefix (lit ''<head'') (c # cs) \<and> 62 \<in> set (drop 5 (c # cs))")
    case True
    then obtain t r where tr: "c # cs = 60 # t @ r" "length t = 4" "set t \<subseteq> headLetters"
      using ciHead by blast
    then have d: "drop 5 (c # cs) = r" by simp
    from True Cons.prems d have a: "a = []" and g: "g = takeWhile (\<lambda>x. x \<noteq> 62) r"
      and b: "b = tl (dropWhile (\<lambda>x. x \<noteq> 62) r)" by auto
    from True d have "r = g @ 62 # b" unfolding g b by (intro split_gt) simp
    moreover have "62 \<notin> set g" unfolding g by (auto dest: set_takeWhileD)
    ultimately show ?thesis using tr a by auto
  next
    case False
    with Cons.prems obtain a' where f: "findHead cs = Some (a', g, b)" and a: "a = c # a'"
      by (auto split: option.splits)
    from Cons.IH[OF f] a show ?thesis by auto
  qed
qed

lemma hasHead_Cons:
  "hasHead (c # cs) \<longleftrightarrow>
     (ciPrefix (lit ''<head'') (c # cs) \<and> 62 \<in> set (drop 5 (c # cs))) \<or> hasHead cs"
  by (auto simp: hasHead_def split: option.splits)

lemma hasHead_append: "hasHead s \<Longrightarrow> hasHead (p @ s)"
  by (induction p) (auto simp: hasHead_Cons)

lemma hasHead_replaced: "hasHead (a @ lit ''<head'' @ g @ [62] @ rest)"
proof -
  have "hasHead (lit ''<head'' @ g @ [62] @ rest)"
    by (simp add: lit_Nil lit_Cons hasHead_Cons)
  then show ?thesis by (rule hasHead_append)
qed

lemma replaceHead_hasHead: "hasHead (replaceHead ins s) \<longleftrightarrow> hasHead s"
proof (cases "findHead s")
  case None
  then show ?thesis by (simp add: replaceHead_def)
next
  case (Some x)
  obtain a g b where "x = (a, g, b)" by (cases x)
  with Some have "replaceHead ins s = a @ lit ''<head'' @ g @ [62] @ ins @ b"
    by (simp add: replaceHead_def)
  with Some show ?thesis using hasHead_replaced[of a g "ins @ b"] by (simp add: hasHead_def)
qed

lemma replaceHead_none: "\<not> hasHead s \<Longrightarrow> replaceHead ins s = s"
  by (cases "findHead s") (simp_all add: hasHead_def replaceHead_def)

subsection \<open>What the patch after the head tag changes\<close>


lemma replaceHead_count:
  assumes m: "plainMarker m" and h: "hasHead s"
  shows "countOcc m (replaceHead (i @ [62]) s) = countOcc m s + countOcc m i"
proof -
  from m have ne: "m \<noteq> []" and lt: "60 \<notin> set m" and gt: "62 \<notin> set m"
    and hl: "hd m \<notin> headLetters" by (simp_all add: plainMarker_def)
  from h obtain a g b where f: "findHead s = Some (a, g, b)"
    by (auto simp: hasHead_def)
  then obtain t where s: "s = a @ 60 # t @ g @ 62 # b" and t: "set t \<subseteq> headLetters"
    using findHead_SomeD by blast
  from hl t have skip: "hd m \<notin> set t" by auto
  have skip': "hd m \<notin> set [104, 101, 97, 100]" using hl by (auto simp: headLetters_def)
  have "countOcc m s = countOcc m a + countOcc m (t @ g @ 62 # b)"
    unfolding s by (rule count_split[OF ne lt])
  also have "countOcc m (t @ g @ 62 # b) = countOcc m (g @ 62 # b)"
    by (rule count_skip[OF ne skip])
  also have "\<dots> = countOcc m g + countOcc m b" by (rule count_split[OF ne gt])
  finally have cs: "countOcc m s = countOcc m a + (countOcc m g + countOcc m b)" .
  have r: "replaceHead (i @ [62]) s = a @ 60 # [104, 101, 97, 100] @ g @ 62 # (i @ 62 # b)"
    using f by (simp add: replaceHead_def lit_Nil lit_Cons)
  have "countOcc m (replaceHead (i @ [62]) s) =
      countOcc m a + countOcc m ([104, 101, 97, 100] @ g @ 62 # (i @ 62 # b))"
    unfolding r by (rule count_split[OF ne lt])
  also have "countOcc m ([104, 101, 97, 100] @ g @ 62 # (i @ 62 # b)) =
      countOcc m (g @ 62 # (i @ 62 # b))"
    by (rule count_skip[OF ne skip'])
  also have "\<dots> = countOcc m g + countOcc m (i @ 62 # b)" by (rule count_split[OF ne gt])
  also have "countOcc m (i @ 62 # b) = countOcc m i + countOcc m b"
    by (rule count_split[OF ne gt])
  finally show ?thesis using cs by simp
qed

lemma body_forms:
  "lit ''</body>'' = 60 # [47, 98, 111, 100, 121, 62]"
  "lit ''</body>'' = [60, 47, 98, 111, 100, 121] @ [62]"
  by (simp_all add: lit_Nil lit_Cons)

lemma replaceHead_body:
  assumes i: "\<not> includesStr (i @ [62]) (lit ''</body>'')"
  shows "includesStr (replaceHead (i @ [62]) s) (lit ''</body>'') \<longleftrightarrow>
         includesStr s (lit ''</body>'')"
proof (cases "findHead s")
  case None then show ?thesis by (simp add: replaceHead_def)
next
  case (Some x)
  obtain a g b where "x = (a, g, b)" by (cases x)
  with Some have f: "findHead s = Some (a, g, b)" by simp
  then obtain t where s: "s = a @ 60 # t @ g @ 62 # b" and t: "set t \<subseteq> headLetters"
    and lt: "length t = 4" using findHead_SomeD by blast
  let ?B = "lit ''</body>''"
  let ?m' = "[47, 98, 111, 100, 121, 62::nat]"
  let ?m'' = "[60, 47, 98, 111, 100, 121::nat]"
  have B1: "?B = 60 # ?m'" and B2: "?B = ?m'' @ [62]" by (rule body_forms)+
  have d1: "60 \<notin> set ?m'" and d2: "62 \<notin> set ?m''" by simp_all
  have bne: "?B \<noteq> []" by (simp add: B1)
  have hB: "hd ?B = 60" by (simp add: B1)
  have nl: "60 \<notin> headLetters" "47 \<notin> headLetters" by (simp_all add: headLetters_def)
  from t nl have st: "hd ?B \<notin> set t" and t47: "47 \<notin> set t" by (auto simp: hB)
  have st': "hd ?B \<notin> set [104, 101, 97, 100]" by (simp add: hB)
  from lt t47 have np: "\<And>Z. \<not> prefix ?m' (t @ Z)" by (cases t) auto
  have np': "\<And>Z. \<not> prefix ?m' ([104, 101, 97, 100] @ Z)" by simp
  \<comment> \<open>the string before the patch\<close>
  have "includesStr s ?B \<longleftrightarrow>
      includesStr a ?B \<or> prefix ?m' (t @ g @ 62 # b) \<or> includesStr (t @ g @ 62 # b) ?B"
    unfolding s B1 by (rule inc_split_first[OF d1])
  also have "\<dots> \<longleftrightarrow> includesStr a ?B \<or> includesStr (g @ 62 # b) ?B"
    using np[of "g @ 62 # b"] inc_skip[OF bne st, of "g @ 62 # b"] by simp
  also have "includesStr (g @ 62 # b) ?B \<longleftrightarrow> includesStr (g @ [62]) ?B \<or> includesStr b ?B"
    unfolding B2 by (rule inc_split_last[OF d2])
  finally have before: "includesStr s ?B \<longleftrightarrow>
      includesStr a ?B \<or> includesStr (g @ [62]) ?B \<or> includesStr b ?B" .
  \<comment> \<open>the string after the patch\<close>
  have r: "replaceHead (i @ [62]) s = a @ 60 # [104, 101, 97, 100] @ g @ 62 # (i @ 62 # b)"
    using f by (simp add: replaceHead_def lit_Nil lit_Cons)
  have "includesStr (replaceHead (i @ [62]) s) ?B \<longleftrightarrow>
      includesStr a ?B \<or> prefix ?m' ([104, 101, 97, 100] @ g @ 62 # (i @ 62 # b))
      \<or> includesStr ([104, 101, 97, 100] @ g @ 62 # (i @ 62 # b)) ?B"
    unfolding r B1 by (rule inc_split_first[OF d1])
  also have "\<dots> \<longleftrightarrow> includesStr a ?B \<or> includesStr (g @ 62 # (i @ 62 # b)) ?B"
    using np'[of "g @ 62 # (i @ 62 # b)"] inc_skip[OF bne st', of "g @ 62 # (i @ 62 # b)"]
    by simp
  also have "includesStr (g @ 62 # (i @ 62 # b)) ?B \<longleftrightarrow>
      includesStr (g @ [62]) ?B \<or> includesStr (i @ 62 # b) ?B"
    unfolding B2 by (rule inc_split_last[OF d2])
  also have "includesStr (i @ 62 # b) ?B \<longleftrightarrow> includesStr (i @ [62]) ?B \<or> includesStr b ?B"
    unfolding B2 by (rule inc_split_last[OF d2])
  finally have after: "includesStr (replaceHead (i @ [62]) s) ?B \<longleftrightarrow>
      includesStr a ?B \<or> includesStr (g @ [62]) ?B \<or> includesStr b ?B"
    using i by simp
  from before after show ?thesis by simp
qed

subsection \<open>What the patch before the end of the body changes\<close>


lemma splitAt_SomeD: "splitAt pat s = Some (a, b) \<Longrightarrow> s = a @ pat @ b"
proof (induction s arbitrary: a)
  case Nil then show ?case by (auto split: if_splits)
next
  case (Cons c cs)
  show ?case
  proof (cases "prefix pat (c # cs)")
    case True
    then obtain z where z: "c # cs = pat @ z" by (auto simp: prefix_def)
    then have d: "drop (length pat) (c # cs) = z" by (metis append_eq_conv_conj)
    from True Cons.prems have "a = []" "b = drop (length pat) (c # cs)" by simp_all
    with d z show ?thesis by simp
  next
    case False
    with Cons.prems obtain a' where f: "splitAt pat cs = Some (a', b)" and a: "a = c # a'"
      by (auto split: option.splits)
    from Cons.IH[OF f] a show ?thesis by simp
  qed
qed

lemma splitAt_None: "splitAt pat s = None \<longleftrightarrow> \<not> includesStr s pat"
  by (induction s) (auto split: option.splits)

lemma replaceFirst_none: "\<not> includesStr s pat \<Longrightarrow> replaceFirst pat rep s = s"
  by (simp add: replaceFirst_def splitAt_None[symmetric])

lemma script_form:
  "cordovaScript = [32, 32, 32] @ 32 # [] @ 60 # drop 5 cordovaScript"
  by (simp add: cordovaScript_def lit_Nil lit_Cons)

lemma replaceFirst_count:
  assumes m: "plainMarker m" and inc: "includesStr s (lit ''</body>'')"
  shows "countOcc m (replaceFirst (lit ''</body>'') (cordovaScript @ lit ''</body>'') s) =
         countOcc m s + countOcc m (drop 5 cordovaScript)"
proof -
  from m have ne: "m \<noteq> []" and lt: "60 \<notin> set m" and sp: "32 \<notin> set m"
    by (simp_all add: plainMarker_def)
  from ne sp have hs: "hd m \<notin> set [32, 32, 32]" by (cases m) auto
  from inc obtain a b where f: "splitAt (lit ''</body>'') s = Some (a, b)"
    using splitAt_None[of "lit ''</body>''" s] by (cases "splitAt (lit ''</body>'') s") auto
  let ?Y = "[47, 98, 111, 100, 121, 62] @ b"
  let ?S2 = "drop 5 cordovaScript"
  from splitAt_SomeD[OF f] have s: "s = a @ 60 # ?Y" by (simp add: lit_Nil lit_Cons)
  have cs: "countOcc m s = countOcc m a + countOcc m ?Y"
    unfolding s by (rule count_split[OF ne lt])
  have "replaceFirst (lit ''</body>'') (cordovaScript @ lit ''</body>'') s =
      a @ cordovaScript @ lit ''</body>'' @ b"
    using f by (simp add: replaceFirst_def)
  also have "\<dots> = (a @ 32 # [32, 32, 32]) @ 60 # (?S2 @ 60 # ?Y)"
    by (simp add: cordovaScript_def lit_Nil lit_Cons)
  finally have r: "replaceFirst (lit ''</body>'') (cordovaScript @ lit ''</body>'') s =
      (a @ 32 # [32, 32, 32]) @ 60 # (?S2 @ 60 # ?Y)" .
  have "countOcc m (replaceFirst (lit ''</body>'') (cordovaScript @ lit ''</body>'') s) =
      countOcc m (a @ 32 # [32, 32, 32]) + countOcc m (?S2 @ 60 # ?Y)"
    unfolding r by (rule count_split[OF ne lt])
  also have "countOcc m (a @ 32 # [32, 32, 32]) = countOcc m a + countOcc m [32, 32, 32]"
    by (rule count_split[OF ne sp])
  also have "countOcc m [32, 32, 32] = 0"
    using count_skip[OF ne hs, of "[]"] by simp
  also have "countOcc m (?S2 @ 60 # ?Y) = countOcc m ?S2 + countOcc m ?Y"
    by (rule count_split[OF ne lt])
  finally show ?thesis using cs by simp
qed

lemma ci_short:
  "ciPrefix P (A @ 32 # Y) \<Longrightarrow> \<forall>p \<in> set P. canon p \<noteq> 32 \<Longrightarrow> length P \<le> length A"
proof (induction P arbitrary: A)
  case Nil then show ?case by simp
next
  case (Cons p P)
  show ?case
  proof (cases A)
    case Nil
    with Cons.prems show ?thesis by (simp add: canon_def)
  next
    case (Cons c A')
    with Cons.prems Cons.IH[of A'] show ?thesis by simp
  qed
qed

lemma ci_long: "length P \<le> length A \<Longrightarrow> ciPrefix P (A @ Z) = ciPrefix P A"
proof (induction P arbitrary: A)
  case Nil then show ?case by simp
next
  case (Cons p P)
  then obtain c A' where "A = c # A'" by (cases A) auto
  with Cons show ?case by simp
qed

lemma script_no_head: "62 \<in> set X \<Longrightarrow> hasHead (cordovaScript @ X) \<Longrightarrow> hasHead X"
  by (simp add: cordovaScript_def lit_Nil lit_Cons hasHead_Cons canon_def)

lemma hasHead_script:
  "62 \<in> set X \<Longrightarrow> hasHead (a @ cordovaScript @ X) \<Longrightarrow> hasHead (a @ X)"
proof (induction a)
  case Nil then show ?case using script_no_head by simp
next
  case (Cons c a)
  let ?P = "lit ''<head''"
  from Cons.prems(2) consider
    "ciPrefix ?P ((c # a) @ cordovaScript @ X)" | "hasHead (a @ cordovaScript @ X)"
    by (auto simp: hasHead_Cons)
  then show ?case
  proof cases
    case 1
    have "cordovaScript @ X = 32 # tl cordovaScript @ X"
      by (simp add: cordovaScript_def lit_Nil lit_Cons)
    with 1 have "ciPrefix ?P ((c # a) @ 32 # tl cordovaScript @ X)" by simp
    then have len: "length ?P \<le> length (c # a)"
      by (rule ci_short) (simp add: lit_Nil lit_Cons canon_def)
    with 1 have "ciPrefix ?P (c # a)" using ci_long[OF len] by blast
    then have p: "ciPrefix ?P ((c # a) @ X)" using ci_long[OF len] by blast
    from len have "5 \<le> length (c # a)" by (simp add: lit_def)
    then have "drop 5 ((c # a) @ X) = drop 5 (c # a) @ X" by simp
    with Cons.prems(1) have "62 \<in> set (drop 5 ((c # a) @ X))" by simp
    with p show ?thesis by (simp add: hasHead_Cons)
  next
    case 2
    with Cons show ?thesis by (simp add: hasHead_Cons)
  qed
qed

lemma replaceFirst_hasHead:
  "hasHead (replaceFirst (lit ''</body>'') (cordovaScript @ lit ''</body>'') s) \<Longrightarrow> hasHead s"
proof (cases "splitAt (lit ''</body>'') s")
  case None
  assume "hasHead (replaceFirst (lit ''</body>'') (cordovaScript @ lit ''</body>'') s)"
  with None show ?thesis by (simp add: replaceFirst_def)
next
  case (Some x)
  assume h: "hasHead (replaceFirst (lit ''</body>'') (cordovaScript @ lit ''</body>'') s)"
  obtain a b where "x = (a, b)" by (cases x)
  with Some have f: "splitAt (lit ''</body>'') s = Some (a, b)" by simp
  from splitAt_SomeD[OF f] have s: "s = a @ lit ''</body>'' @ b" .
  have g: "62 \<in> set (lit ''</body>'' @ b)" by (simp add: lit_Nil lit_Cons)
  from h f have "hasHead (a @ cordovaScript @ (lit ''</body>'' @ b))"
    by (simp add: replaceFirst_def)
  from hasHead_script[OF g this] s show ?thesis by simp
qed

subsection \<open>The inserted texts\<close>


lemma markers_plain:
  "plainMarker (lit ''viewport'')"
  "plainMarker (lit ''Content-Security-Policy'')"
  "plainMarker (lit ''cordova.js'')"
  by (simp_all add: plainMarker_def headLetters_def lit_Nil lit_Cons)

lemma meta_forms:
  "viewportMeta = butlast viewportMeta @ [62]"
  "cspMeta = butlast cspMeta @ [62]"
  by (simp_all add: viewportMeta_def cspMeta_def lit_Nil lit_Cons)

lemma meta_counts:
  "countOcc (lit ''viewport'') (butlast viewportMeta) = 1"
  "countOcc (lit ''Content-Security-Policy'') (butlast viewportMeta) = 0"
  "countOcc (lit ''cordova.js'') (butlast viewportMeta) = 0"
  "countOcc (lit ''viewport'') (butlast cspMeta) = 0"
  "countOcc (lit ''Content-Security-Policy'') (butlast cspMeta) = 1"
  "countOcc (lit ''cordova.js'') (butlast cspMeta) = 0"
  "countOcc (lit ''viewport'') (drop 5 cordovaScript) = 0"
  "countOcc (lit ''Content-Security-Policy'') (drop 5 cordovaScript) = 0"
  "countOcc (lit ''cordova.js'') (drop 5 cordovaScript) = 1"
  by (simp_all add: viewportMeta_def cspMeta_def cordovaScript_def lit_Nil lit_Cons)

lemma meta_no_body:
  "\<not> includesStr (butlast viewportMeta @ [62]) (lit ''</body>'')"
  "\<not> includesStr (butlast cspMeta @ [62]) (lit ''</body>'')"
  by (simp_all add: viewportMeta_def cspMeta_def lit_Nil lit_Cons)

subsection \<open>The three patches together\<close>


lemma addViewport_count:
  "plainMarker m \<Longrightarrow>
   countOcc m (addViewport h) =
     countOcc m h + (if \<not> includesStr h (lit ''viewport'') \<and> hasHead h
                     then countOcc m (butlast viewportMeta) else 0)"
  using replaceHead_count[of m h "butlast viewportMeta"] meta_forms(1)
  by (auto simp: addViewport_def replaceHead_none)

lemma addCsp_count:
  "plainMarker m \<Longrightarrow>
   countOcc m (addCsp h) =
     countOcc m h + (if \<not> includesStr h (lit ''Content-Security-Policy'') \<and> hasHead h
                     then countOcc m (butlast cspMeta) else 0)"
  using replaceHead_count[of m h "butlast cspMeta"] meta_forms(2)
  by (auto simp: addCsp_def replaceHead_none)

lemma addCordova_count:
  "plainMarker m \<Longrightarrow>
   countOcc m (addCordova h) =
     countOcc m h + (if \<not> includesStr h (lit ''cordova.js'') \<and> includesStr h (lit ''</body>'')
                     then countOcc m (drop 5 cordovaScript) else 0)"
  using replaceFirst_count[of m h]
  by (auto simp: addCordova_def replaceFirst_none)

lemma addViewport_hasHead: "hasHead (addViewport h) \<longleftrightarrow> hasHead h"
  by (simp add: addViewport_def replaceHead_hasHead)

lemma addCsp_hasHead: "hasHead (addCsp h) \<longleftrightarrow> hasHead h"
  by (simp add: addCsp_def replaceHead_hasHead)

lemma addCordova_hasHead: "hasHead (addCordova h) \<Longrightarrow> hasHead h"
  using replaceFirst_hasHead[of h] by (auto simp: addCordova_def split: if_splits)

lemma addViewport_body:
  "includesStr (addViewport h) (lit ''</body>'') \<longleftrightarrow> includesStr h (lit ''</body>'')"
  using replaceHead_body[OF meta_no_body(1), of h] meta_forms(1)
  by (auto simp: addViewport_def)

lemma addCsp_body:
  "includesStr (addCsp h) (lit ''</body>'') \<longleftrightarrow> includesStr h (lit ''</body>'')"
  using replaceHead_body[OF meta_no_body(2), of h] meta_forms(2)
  by (auto simp: addCsp_def)

lemma prepare_steps: "prepareHtmlForCordova h = addCordova (addCsp (addViewport h))"
  by (simp add: prepareHtmlForCordova_def addCordova_def addCsp_def addViewport_def Let_def)

lemma marker_ne:
  "lit ''viewport'' \<noteq> []" "lit ''Content-Security-Policy'' \<noteq> []" "lit ''cordova.js'' \<noteq> []"
  by (simp_all add: lit_Cons)

lemma prepare_count_viewport:
  "countOcc (lit ''viewport'') (prepareHtmlForCordova h) =
     (if includesStr h (lit ''viewport'') then countOcc (lit ''viewport'') h
      else if hasHead h then 1 else 0)"
  by (simp add: prepare_steps addCordova_count addCsp_count addViewport_count markers_plain
      meta_counts includes_count[OF marker_ne(1)])

lemma prepare_count_csp:
  "countOcc (lit ''Content-Security-Policy'') (prepareHtmlForCordova h) =
     (if includesStr h (lit ''Content-Security-Policy'')
      then countOcc (lit ''Content-Security-Policy'') h
      else if hasHead h then 1 else 0)"
  by (simp add: prepare_steps addCordova_count addCsp_count addViewport_count markers_plain
      meta_counts includes_count[OF marker_ne(2)] addViewport_hasHead)

lemma prepare_count_cordova:
  "countOcc (lit ''cordova.js'') (prepareHtmlForCordova h) =
     (if includesStr h (lit ''cordova.js'') then countOcc (lit ''cordova.js'') h
      else if includesStr h (lit ''</body>'') then 1 else 0)"
  by (simp add: prepare_steps addCordova_count addCsp_count addViewport_count markers_plain
      meta_counts includes_count[OF marker_ne(3)] addViewport_body addCsp_body)

lemma prepare_hasHead: "hasHead (prepareHtmlForCordova h) \<Longrightarrow> hasHead h"
  unfolding prepare_steps
  using addCordova_hasHead addCsp_hasHead addViewport_hasHead by blast

lemma prepare_idempotent:
  "prepareHtmlForCordova (prepareHtmlForCordova h) = prepareHtmlForCordova h"
proof -
  let ?R = "prepareHtmlForCordova h"
  have v: "addViewport ?R = ?R"
  proof (cases "includesStr ?R (lit ''viewport'')")
    case True then show ?thesis by (simp add: addViewport_def)
  next
    case False
    then have "countOcc (lit ''viewport'') ?R = 0" by (simp add: includes_count[OF marker_ne(1)])
    then have "\<not> hasHead h" by (simp add: prepare_count_viewport includes_count[OF marker_ne(1)] split: if_splits)
    then have "\<not> hasHead ?R" using prepare_hasHead by blast
    then show ?thesis by (simp add: addViewport_def replaceHead_none)
  qed
  have c: "addCsp ?R = ?R"
  proof (cases "includesStr ?R (lit ''Content-Security-Policy'')")
    case True then show ?thesis by (simp add: addCsp_def)
  next
    case False
    then have "countOcc (lit ''Content-Security-Policy'') ?R = 0"
      by (simp add: includes_count[OF marker_ne(2)])
    then have "\<not> hasHead h" by (simp add: prepare_count_csp includes_count[OF marker_ne(2)] split: if_splits)
    then have "\<not> hasHead ?R" using prepare_hasHead by blast
    then show ?thesis by (simp add: addCsp_def replaceHead_none)
  qed
  have j: "addCordova ?R = ?R"
  proof (cases "includesStr ?R (lit ''cordova.js'')")
    case True then show ?thesis by (simp add: addCordova_def)
  next
    case False
    then have z: "countOcc (lit ''cordova.js'') ?R = 0"
      by (simp add: includes_count[OF marker_ne(3)])
    let ?T = "addCsp (addViewport h)"
    from z have nb: "\<not> includesStr h (lit ''</body>'')"
      by (simp add: prepare_count_cordova includes_count[OF marker_ne(3)] split: if_splits)
    then have nT: "\<not> includesStr ?T (lit ''</body>'')"
      by (simp add: addViewport_body addCsp_body)
    then have "addCordova ?T = ?T" by (simp add: addCordova_def replaceFirst_none)
    then have "?R = ?T" by (simp add: prepare_steps)
    with nT have "\<not> includesStr ?R (lit ''</body>'')" by simp
    then show ?thesis by (simp add: addCordova_def replaceFirst_none)
  qed
  have "prepareHtmlForCordova ?R = addCordova (addCsp (addViewport ?R))" by (rule prepare_steps)
  with v c j show ?thesis by simp
qed

subsection \<open>Idempotence and the number of tags\<close>


lemmas html_eval = prepareHtmlForCordova_def replaceHead_def replaceFirst_def viewportMeta_def
  cspMeta_def cordovaScript_def canon_def Let_def lit_Nil lit_Cons

text \<open>A page with a head and a body gets the three tags, the CSP tag before the viewport tag.\<close>

lemma prepare_page:
  "prepareHtmlForCordova (lit ''<html><head></head><body></body></html>'') =
     lit ''<html><head>'' @ cspMeta @ viewportMeta @ lit ''</head><body>'' @ cordovaScript
     @ lit ''</body></html>''"
  by (simp add: html_eval)

text \<open>
  A fragment without a head tag and without the end of a body is returned as it is: it has
  none of the three tags afterwards.
\<close>

theorem prepare_fragment_unchanged:
  "prepareHtmlForCordova (lit ''<p>Hello</p>'') = lit ''<p>Hello</p>'' \<and>
   countOcc (lit ''viewport'') (prepareHtmlForCordova (lit ''<p>Hello</p>'')) = 0 \<and>
   countOcc (lit ''Content-Security-Policy'') (prepareHtmlForCordova (lit ''<p>Hello</p>'')) = 0 \<and>
   countOcc (lit ''cordova.js'') (prepareHtmlForCordova (lit ''<p>Hello</p>'')) = 0"
  by (simp add: html_eval)

text \<open>
  Claim C4 (amended). \<open>prepareHtmlForCordova\<close> is idempotent on every page. Each of the three
  markers \<open>viewport\<close>, \<open>Content-Security-Policy\<close> and \<open>cordova.js\<close> occurs in the result as
  often as in the page when the page already has it; when the page does not have it, it occurs
  exactly once if the page has the place of insertion (an opening head tag with its \<open>>\<close> for
  the two meta tags, \<open></body>\<close> for the script) and not at all otherwise.
\<close>

theorem prepare_idempotent_counts:
  "prepareHtmlForCordova (prepareHtmlForCordova H) = prepareHtmlForCordova H \<and>
   countOcc (lit ''viewport'') (prepareHtmlForCordova H) =
     (if includesStr H (lit ''viewport'') then countOcc (lit ''viewport'') H
      else if hasHead H then 1 else 0) \<and>
   countOcc (lit ''Content-Security-Policy'') (prepareHtmlForCordova H) =
     (if includesStr H (lit ''Content-Security-Policy'')
      then countOcc (lit ''Content-Security-Policy'') H
      else if hasHead H then 1 else 0) \<and>
   countOcc (lit ''cordova.js'') (prepareHtmlForCordova H) =
     (if includesStr H (lit ''cordova.js'') then countOcc (lit ''cordova.js'') H
      else if includesStr H (lit ''</body>'') then 1 else 0)"
  using prepare_idempotent[of H] prepare_count_viewport[of H] prepare_count_csp[of H]
    prepare_count_cordova[of H]
  by blast

end
